theory Spec2Isabelle
  imports Main
begin

section \<open>Plain JavaScript objects, Maps and Sets\<close>

text \<open>
  \<^verbatim>\<open>sync/fromDisk/tags.js\<close> keeps two lookup tables in plain objects created by
  the literal \<^verbatim>\<open>{}\<close>: \<^verbatim>\<open>seen\<close> in \<^verbatim>\<open>getDuplicates\<close> and \<^verbatim>\<open>tagIdsByName\<close> in
  \<^verbatim>\<open>sync\<close>; \<^verbatim>\<open>questionIds\<close> of \<^verbatim>\<open>syncNew\<close> is a plain object too. A read
  \<^verbatim>\<open>obj[k]\<close> and the test \<^verbatim>\<open>k in obj\<close> of such an object look at the object's own
  properties first and then at \<^verbatim>\<open>Object.prototype\<close>. The own properties are a map from
  strings; the properties of \<^verbatim>\<open>Object.prototype\<close> are the ones ECMAScript gives it
  (its methods and the accessor \<^verbatim>\<open>__proto__\<close>), every one of them a function or an
  object, hence truthy.
\<close>

definition object_prototype_keys :: "string list" where
  "object_prototype_keys =
     [''constructor'', ''__defineGetter__'', ''__defineSetter__'', ''hasOwnProperty'',
      ''__lookupGetter__'', ''__lookupSetter__'', ''isPrototypeOf'',
      ''propertyIsEnumerable'', ''toString'', ''valueOf'', ''__proto__'',
      ''toLocaleString'']"

type_synonym 'v js_object = "string \<rightharpoonup> 'v"

text \<open>
  What a read yields: a value stored by the program, a property inherited from
  \<^verbatim>\<open>Object.prototype\<close> (named by its key), or \<^verbatim>\<open>undefined\<close>.
\<close>

datatype 'v js_value = Own 'v | Inherited string | Undefined

definition js_get :: "'v js_object \<Rightarrow> string \<Rightarrow> 'v js_value" where
  "js_get obj k =
     (case obj k of
        Some v \<Rightarrow> Own v
      | None \<Rightarrow> if k \<in> set object_prototype_keys then Inherited k else Undefined)"

definition js_in :: "string \<Rightarrow> 'v js_object \<Rightarrow> bool" where
  "js_in k obj = (obj k \<noteq> None \<or> k \<in> set object_prototype_keys)"

text \<open>
  The assignment \<^verbatim>\<open>obj[k] = v\<close> creates or overwrites the own property \<^verbatim>\<open>k\<close>,
  except for \<^verbatim>\<open>k = "__proto__"\<close>: that assignment runs the setter inherited from
  \<^verbatim>\<open>Object.prototype\<close>, which does nothing when \<^verbatim>\<open>v\<close> is a primitive value. The
  values stored by this module are \<^verbatim>\<open>true\<close> and the tag ids returned by the database
  (numbers or strings), all primitive.
\<close>

definition js_put :: "'v js_object \<Rightarrow> string \<Rightarrow> 'v \<Rightarrow> 'v js_object" where
  "js_put obj k v = (if k = ''__proto__'' then obj else obj(k \<mapsto> v))"

text \<open>Truthiness of what a read of the \<^verbatim>\<open>seen\<close> table yields.\<close>

fun truthy :: "bool js_value \<Rightarrow> bool" where
  "truthy (Own b) = b"
| "truthy (Inherited k) = True"
| "truthy Undefined = False"

text \<open>A \<^verbatim>\<open>Map\<close> has no inherited keys: \<^verbatim>\<open>m.get(k)\<close> is the stored value or \<^verbatim>\<open>undefined\<close>.\<close>

definition map_get :: "(string \<rightharpoonup> 'v) \<Rightarrow> string \<Rightarrow> 'v js_value" where
  "map_get m k = (case m k of Some v \<Rightarrow> Own v | None \<Rightarrow> Undefined)"

text \<open>
  A \<^verbatim>\<open>Set\<close> iterates in insertion order and \<^verbatim>\<open>add\<close> of a member changes nothing:
  a list without repetition, new members appended.
\<close>

definition set_add :: "'a list \<Rightarrow> 'a \<Rightarrow> 'a list" where
  "set_add s x = (if x \<in> set s then s else s @ [x])"

section \<open>Errors\<close>

text \<open>
  The three \<^verbatim>\<open>throw new Error(...)\<close> of \<^verbatim>\<open>sync\<close> carry the names their messages
  list; \<^verbatim>\<open>TypeError\<close> is what the runtime throws on a property read of \<^verbatim>\<open>undefined\<close>;
  \<^verbatim>\<open>SqlError\<close> is a rejection of \<^verbatim>\<open>sqldb.callAsync\<close> or \<^verbatim>\<open>sqldb.callOneRowAsync\<close>,
  passed on unchanged.
\<close>

datatype error =
    DuplicateTagNames "string list"
  | UnknownTags string "string list"
  | DuplicateTags string "string list"
  | TypeError
  | SqlError string

fun is_configuration_error :: "error \<Rightarrow> bool" where
  "is_configuration_error (DuplicateTagNames ns) = True"
| "is_configuration_error (UnknownTags qid ns) = True"
| "is_configuration_error (DuplicateTags qid ns) = True"
| "is_configuration_error TypeError = False"
| "is_configuration_error (SqlError m) = False"

section \<open>getDuplicates\<close>

text \<open>
  \<^verbatim>\<open>arr.filter(v => { const present = seen[v]; seen[v] = true; return present; })\<close>:
  the table \<^verbatim>\<open>seen\<close> is threaded through the elements from left to right.
\<close>

fun getDuplicates_filter :: "bool js_object \<Rightarrow> string list \<Rightarrow> string list" where
  "getDuplicates_filter seen [] = []"
| "getDuplicates_filter seen (v # arr) =
     (let present = js_get seen v;
          seen' = js_put seen v True
      in if truthy present then v # getDuplicates_filter seen' arr
         else getDuplicates_filter seen' arr)"

definition getDuplicates :: "string list \<Rightarrow> string list" where
  "getDuplicates arr = getDuplicates_filter Map.empty arr"

definition getDuplicatesByKey :: "'a list \<Rightarrow> ('a \<Rightarrow> string) \<Rightarrow> string list" where
  "getDuplicatesByKey arr key = getDuplicates (map key arr)"

text \<open>
  The duplicate detector as the specification words it: the elements that repeat an
  earlier occurrence, in their order.
\<close>

fun repeats_after :: "'a list \<Rightarrow> 'a list \<Rightarrow> 'a list" where
  "repeats_after earlier [] = []"
| "repeats_after earlier (v # arr) =
     (if v \<in> set earlier then v # repeats_after (earlier @ [v]) arr
      else repeats_after (earlier @ [v]) arr)"

definition repeats :: "'a list \<Rightarrow> 'a list" where
  "repeats arr = repeats_after [] arr"

section \<open>The legacy reconciliation: sync\<close>

record tag =
  name :: string
  color :: string
  description :: string

text \<open>
  \<^verbatim>\<open>courseInfo\<close>: \<^verbatim>\<open>courseInfo.tags\<close> may be absent. A question of \<^verbatim>\<open>questionDB\<close>
  has an \<^verbatim>\<open>id\<close> and an optional \<^verbatim>\<open>tags\<close> list; \<^verbatim>\<open>questionDB\<close> itself is the list
  of its entries \<^verbatim>\<open>(qid, question)\<close> in the order in which \<^verbatim>\<open>Object.values\<close> and
  \<^verbatim>\<open>for ... in\<close> enumerate them.
\<close>

record 'cid courseInfo =
  tags :: "tag list option"
  courseId :: 'cid

record 'qi question =
  question_id :: 'qi
  question_tags :: "string list option"

type_synonym 'qi questionDB = "(string \<times> 'qi question) list"

text \<open>
  The stored procedures are outside this module. A call either rejects (with the
  message of the database's error) or returns the field the code reads from the single
  row: \<^verbatim>\<open>new_tag_ids\<close> for \<^verbatim>\<open>sync_course_tags\<close>, nothing for
  \<^verbatim>\<open>sync_question_tags\<close>. The payloads are modelled as the values handed to
  \<^verbatim>\<open>JSON.stringify\<close>.
\<close>

definition propagate :: "string + 'a \<Rightarrow> error + 'a" where
  "propagate r = (case r of Inl msg \<Rightarrow> Inl (SqlError msg) | Inr v \<Rightarrow> Inr v)"

record ('cid, 'id, 'qi) legacy_db =
  sync_course_tags :: "(string \<times> string \<times> string) list \<Rightarrow> 'cid \<Rightarrow> string + 'id list"
  sync_question_tags :: "('qi \<times> 'id js_value list) list \<Rightarrow> string + unit"

datatype ('cid, 'id, 'qi) legacy_call =
    Call_sync_course_tags "(string \<times> string \<times> string) list" 'cid
  | Call_sync_question_tags "('qi \<times> 'id js_value list) list"

record ('cid, 'id, 'qi) legacy_run =
  courseInfo_after :: "'cid courseInfo"
  calls :: "('cid, 'id, 'qi) legacy_call list"
  result :: "error + unit"

definition tags_or_empty :: "string list option \<Rightarrow> string list" where
  "tags_or_empty ts = (case ts of None \<Rightarrow> [] | Some xs \<Rightarrow> xs)"

definition placeholder :: "string \<Rightarrow> tag" where
  "placeholder n =
     \<lparr>name = n, color = ''gray1'',
      description = ''Auto-generated from use in a question; add this tag to your courseInfo.json file to customize''\<rparr>"

definition questionTagNames :: "'qi questionDB \<Rightarrow> string list" where
  "questionTagNames questionDB =
     concat (map (\<lambda>(qid, q). tags_or_empty (question_tags q)) questionDB)"

definition missingTagNames :: "tag list \<Rightarrow> 'qi questionDB \<Rightarrow> string list" where
  "missingTagNames ts questionDB =
     filter (\<lambda>n. n \<notin> set (map name ts)) (questionTagNames questionDB)"

definition resolved_tags :: "tag list \<Rightarrow> 'qi questionDB \<Rightarrow> tag list" where
  "resolved_tags ts questionDB = ts @ map placeholder (missingTagNames ts questionDB)"

definition paramTags :: "tag list \<Rightarrow> (string \<times> string \<times> string) list" where
  "paramTags ts = map (\<lambda>t. (name t, color t, description t)) ts"

text \<open>
  \<^verbatim>\<open>new_tag_ids.reduce((acc, id, index) => { acc[paramTags[index][0]] = id; return acc; }, {})\<close>.
  An index beyond \<^verbatim>\<open>paramTags\<close> reads \<^verbatim>\<open>undefined[0]\<close>, a \<^verbatim>\<open>TypeError\<close>.
\<close>

fun tagIdsByName_reduce ::
  "(string \<times> string \<times> string) list \<Rightarrow> 'id js_object \<Rightarrow> nat \<Rightarrow> 'id list \<Rightarrow> error + 'id js_object" where
  "tagIdsByName_reduce pts acc index [] = Inr acc"
| "tagIdsByName_reduce pts acc index (i # ids) =
     (if index < length pts
      then tagIdsByName_reduce pts (js_put acc (fst (pts ! index)) i) (Suc index) ids
      else Inl TypeError)"

definition tagIdsByName :: "(string \<times> string \<times> string) list \<Rightarrow> 'id list \<Rightarrow> error + 'id js_object" where
  "tagIdsByName pts ids = tagIdsByName_reduce pts Map.empty 0 ids"

text \<open>The body of the loop \<^verbatim>\<open>for (const qid in questionDB)\<close>, for one question.\<close>

definition question_step ::
  "'id js_object \<Rightarrow> string \<times> 'qi question \<Rightarrow> error + ('qi \<times> 'id js_value list)" where
  "question_step m e =
     (case e of (qid, question) \<Rightarrow>
        let ts = tags_or_empty (question_tags question);
            unknownTags = filter (\<lambda>t. \<not> js_in t m) ts
        in if length unknownTags > 0 then Inl (UnknownTags qid unknownTags)
           else let duplicateTags = getDuplicates ts
                in if length duplicateTags > 0 then Inl (DuplicateTags qid duplicateTags)
                   else Inr (question_id question, map (js_get m) ts))"

fun paramQuestionTags ::
  "'id js_object \<Rightarrow> 'qi questionDB \<Rightarrow> error + ('qi \<times> 'id js_value list) list" where
  "paramQuestionTags m [] = Inr []"
| "paramQuestionTags m (e # rest) =
     (case question_step m e of
        Inl err \<Rightarrow> Inl err
      | Inr p \<Rightarrow>
          (case paramQuestionTags m rest of
             Inl err \<Rightarrow> Inl err
           | Inr ps \<Rightarrow> Inr (p # ps)))"

text \<open>
  \<^verbatim>\<open>sync\<close>. \<^verbatim>\<open>const tags = courseInfo.tags || []\<close> is the caller's array when there
  is one, so \<^verbatim>\<open>tags.push(...)\<close> changes \<^verbatim>\<open>courseInfo.tags\<close>; with no array the push
  goes to a fresh one and \<^verbatim>\<open>courseInfo\<close> stays as it was.
\<close>

definition sync ::
  "'cid courseInfo \<Rightarrow> 'qi questionDB \<Rightarrow> ('cid, 'id, 'qi) legacy_db \<Rightarrow> ('cid, 'id, 'qi) legacy_run" where
  "sync courseInfo questionDB db =
     (let ts = (case tags courseInfo of None \<Rightarrow> [] | Some xs \<Rightarrow> xs);
          duplicateNames = getDuplicatesByKey ts name
      in if length duplicateNames > 0
         then \<lparr>courseInfo_after = courseInfo, calls = [],
               result = Inl (DuplicateTagNames duplicateNames)\<rparr>
         else
           let ts' = resolved_tags ts questionDB;
               courseInfo' = (case tags courseInfo of None \<Rightarrow> courseInfo
                              | Some xs \<Rightarrow> courseInfo\<lparr>tags := Some ts'\<rparr>);
               pts = paramTags ts';
               call1 = Call_sync_course_tags pts (courseId courseInfo)
           in (case propagate (sync_course_tags db pts (courseId courseInfo)) of
                 Inl err \<Rightarrow> \<lparr>courseInfo_after = courseInfo', calls = [call1], result = Inl err\<rparr>
               | Inr new_tag_ids \<Rightarrow>
                   (case tagIdsByName pts new_tag_ids of
                      Inl err \<Rightarrow> \<lparr>courseInfo_after = courseInfo', calls = [call1], result = Inl err\<rparr>
                    | Inr m \<Rightarrow>
                        (case paramQuestionTags m questionDB of
                           Inl err \<Rightarrow>
                             \<lparr>courseInfo_after = courseInfo', calls = [call1], result = Inl err\<rparr>
                         | Inr pqs \<Rightarrow>
                             \<lparr>courseInfo_after = courseInfo',
                              calls = [call1, Call_sync_question_tags pqs],
                              result = propagate (sync_question_tags db pqs)\<rparr>))))"

section \<open>The current reconciliation: syncNew\<close>

text \<open>
  Modelled from the spec: \<^verbatim>\<open>infofile.hasErrors\<close> and the \<^verbatim>\<open>CourseData\<close> type of
  \<^verbatim>\<open>../infofile\<close> and \<^verbatim>\<open>../course-db\<close> are not among the sources. The specification
  describes a structure in which the course file and every question carry a validity flag
  read by \<^verbatim>\<open>hasErrors(item)\<close>, with course-level \<^verbatim>\<open>data.tags\<close> a list of tags and
  per-question \<^verbatim>\<open>data.tags\<close> a list of names. \<^verbatim>\<open>data\<close> may be missing on an item that
  failed to load; the code reads it only after \<^verbatim>\<open>hasErrors\<close> returned false.
\<close>

record 'd infofile =
  hasErrors :: bool
  data :: "'d option"

record course_data =
  course_tags :: "tag list"

record question_data =
  data_tags :: "string list option"

record courseData =
  course :: "course_data infofile"
  questions :: "(string \<times> question_data infofile) list"

record ('cid, 'id, 'qi) new_db =
  sync_course_tags_new ::
    "bool \<Rightarrow> (string \<times> string \<times> string) list \<Rightarrow> string list \<Rightarrow> 'cid \<Rightarrow> string + (string \<times> 'id) list"
  sync_question_tags_new :: "('qi js_value \<times> 'id js_value list) list \<Rightarrow> string + unit"

datatype ('cid, 'id, 'qi) new_call =
    Call_sync_course_tags_new bool "(string \<times> string \<times> string) list" "string list" 'cid
  | Call_sync_question_tags_new "('qi js_value \<times> 'id js_value list) list"

record ('cid, 'id, 'qi) new_run =
  new_calls :: "('cid, 'id, 'qi) new_call list"
  new_result :: "error + unit"

text \<open>
  \<^verbatim>\<open>courseTags\<close>: the declared tags as \<^verbatim>\<open>[t.name, t.description, t.color]\<close>, or the
  empty list when the course file has errors.
\<close>

definition courseTags :: "courseData \<Rightarrow> error + (string \<times> string \<times> string) list" where
  "courseTags cd =
     (if \<not> hasErrors (course cd)
      then (case data (course cd) of
              None \<Rightarrow> Inl TypeError
            | Some d \<Rightarrow> Inr (map (\<lambda>t. (name t, description t, color t)) (course_tags d)))
      else Inr [])"

text \<open>
  \<^verbatim>\<open>Object.values(courseData.questions).forEach(q => { if (!infofile.hasErrors(q)) {
  (q.data.tags || []).forEach(t => knownQuestionTagsNames.add(t)); } })\<close>
\<close>

fun knownQuestionTagsNames ::
  "string list \<Rightarrow> (string \<times> question_data infofile) list \<Rightarrow> error + string list" where
  "knownQuestionTagsNames s [] = Inr s"
| "knownQuestionTagsNames s ((qid, q) # rest) =
     (if \<not> hasErrors q
      then (case data q of
              None \<Rightarrow> Inl TypeError
            | Some d \<Rightarrow>
                knownQuestionTagsNames (foldl set_add s (tags_or_empty (data_tags d))) rest)
      else knownQuestionTagsNames s rest)"

text \<open>\<^verbatim>\<open>newTags.reduce((acc, [name, id]) => { acc.set(name, id); return acc; }, new Map())\<close>\<close>

definition tagIdsByName_new :: "(string \<times> 'id) list \<Rightarrow> (string \<rightharpoonup> 'id)" where
  "tagIdsByName_new newTags = foldl (\<lambda>acc (n, i). acc(n \<mapsto> i)) Map.empty newTags"

text \<open>The body of \<^verbatim>\<open>Object.entries(courseData.questions).forEach\<close>, for one question
  that has no errors.\<close>

definition question_entry ::
  "'qi js_object \<Rightarrow> (string \<rightharpoonup> 'id) \<Rightarrow> string \<Rightarrow> question_data \<Rightarrow> 'qi js_value \<times> 'id js_value list" where
  "question_entry questionIds m qid d =
     (let dedupedQuestionTagNames = foldl set_add [] (tags_or_empty (data_tags d));
          questionTagIds = map (map_get m) dedupedQuestionTagNames
      in (js_get questionIds qid, questionTagIds))"

fun questionTagsParam ::
  "'qi js_object \<Rightarrow> (string \<rightharpoonup> 'id) \<Rightarrow> (string \<times> question_data infofile) list \<Rightarrow>
     error + ('qi js_value \<times> 'id js_value list) list" where
  "questionTagsParam questionIds m [] = Inr []"
| "questionTagsParam questionIds m ((qid, question) # rest) =
     (if hasErrors question then questionTagsParam questionIds m rest
      else (case data question of
              None \<Rightarrow> Inl TypeError
            | Some d \<Rightarrow>
                (case questionTagsParam questionIds m rest of
                   Inl err \<Rightarrow> Inl err
                 | Inr ps \<Rightarrow> Inr (question_entry questionIds m qid d # ps))))"

definition syncNew ::
  "'cid \<Rightarrow> courseData \<Rightarrow> 'qi js_object \<Rightarrow> ('cid, 'id, 'qi) new_db \<Rightarrow> ('cid, 'id, 'qi) new_run" where
  "syncNew cid cd questionIds db =
     (case courseTags cd of
        Inl err \<Rightarrow> \<lparr>new_calls = [], new_result = Inl err\<rparr>
      | Inr cts \<Rightarrow>
          (case knownQuestionTagsNames [] (questions cd) of
             Inl err \<Rightarrow> \<lparr>new_calls = [], new_result = Inl err\<rparr>
           | Inr qtns \<Rightarrow>
               let call1 = Call_sync_course_tags_new (\<not> hasErrors (course cd)) cts qtns cid
               in (case propagate (sync_course_tags_new db (\<not> hasErrors (course cd)) cts qtns cid) of
                     Inl err \<Rightarrow> \<lparr>new_calls = [call1], new_result = Inl err\<rparr>
                   | Inr newTags \<Rightarrow>
                       (case questionTagsParam questionIds (tagIdsByName_new newTags) (questions cd) of
                          Inl err \<Rightarrow> \<lparr>new_calls = [call1], new_result = Inl err\<rparr>
                        | Inr qtp \<Rightarrow>
                            \<lparr>new_calls = [call1, Call_sync_question_tags_new qtp],
                             new_result = propagate (sync_question_tags_new db qtp)\<rparr>))))"

text \<open>
  For the statements about \<^verbatim>\<open>syncNew\<close>: the questions that loaded without error, and the
  tag names a question refers to, \<^verbatim>\<open>q.data.tags || []\<close>.
\<close>

definition error_free ::
  "(string \<times> question_data infofile) list \<Rightarrow> (string \<times> question_data infofile) list" where
  "error_free qs = filter (\<lambda>(qid, q). \<not> hasErrors q) qs"

definition referenced_names :: "question_data infofile \<Rightarrow> string list" where
  "referenced_names q = (case data q of None \<Rightarrow> [] | Some d \<Rightarrow> tags_or_empty (data_tags d))"

section \<open>Sample collaborators\<close>

text \<open>
  Databases for the concrete runs below: one that numbers the tags it is sent in order, one
  whose first procedure rejects, and for \<^verbatim>\<open>syncNew\<close> one that numbers the declared and
  the referenced names and one that returns no tag at all.
\<close>

definition numbering_db :: "(nat, nat, nat) legacy_db" where
  "numbering_db =
     \<lparr>sync_course_tags = (\<lambda>pts cid. Inr [0..<length pts]),
      sync_question_tags = (\<lambda>pqs. Inr ())\<rparr>"

definition rejecting_db :: "(nat, nat, nat) legacy_db" where
  "rejecting_db =
     \<lparr>sync_course_tags = (\<lambda>pts cid. Inl ''connection terminated''),
      sync_question_tags = (\<lambda>pqs. Inr ())\<rparr>"

definition numbering_new_db :: "(nat, nat, nat) new_db" where
  "numbering_new_db =
     \<lparr>sync_course_tags_new =
        (\<lambda>valid cts ns cid.
           Inr (zip (foldl set_add [] (map fst cts @ ns))
                  [0..<length (foldl set_add [] (map fst cts @ ns))])),
      sync_question_tags_new = (\<lambda>qtp. Inr ())\<rparr>"

definition forgetful_new_db :: "(nat, nat, nat) new_db" where
  "forgetful_new_db =
     \<lparr>sync_course_tags_new = (\<lambda>valid cts ns cid. Inr []),
      sync_question_tags_new = (\<lambda>qtp. Inr ())\<rparr>"

section \<open>What getDuplicates returns\<close>

text \<open>
  The element at index \<open>i\<close> is kept exactly when it was met before or is the name of a
  property of \<^verbatim>\<open>Object.prototype\<close>.
\<close>

lemma getDuplicates_filter_nths:
  "(\<forall>k b. seen k = Some b \<longrightarrow> b) \<Longrightarrow>
   getDuplicates_filter seen arr =
     nths arr {i. arr ! i \<in> dom seen \<or> arr ! i \<in> set object_prototype_keys \<or> arr ! i \<in> set (take i arr)}"
proof (induction arr arbitrary: seen)
  case Nil
  then show ?case by simp
next
  case (Cons v arr)
  let ?seen' = "js_put seen v True"
  have vals: "\<forall>k b. ?seen' k = Some b \<longrightarrow> b"
    using Cons.prems by (auto simp: js_put_def)
  have dom': "v \<noteq> ''__proto__'' \<Longrightarrow> dom ?seen' = insert v (dom seen)"
    by (auto simp: js_put_def)
  have dom'': "v = ''__proto__'' \<Longrightarrow> dom ?seen' = dom seen \<and> v \<in> set object_prototype_keys"
    by (auto simp: js_put_def object_prototype_keys_def)
  have tl: "{j. Suc j \<in> {i. (v # arr) ! i \<in> dom seen \<or> (v # arr) ! i \<in> set object_prototype_keys \<or> (v # arr) ! i \<in> set (take i (v # arr))}}
      = {i. arr ! i \<in> dom ?seen' \<or> arr ! i \<in> set object_prototype_keys \<or> arr ! i \<in> set (take i arr)}"
    using dom' dom'' by (cases "v = ''__proto__''") auto
  have hd: "truthy (js_get seen v) \<longleftrightarrow> v \<in> dom seen \<or> v \<in> set object_prototype_keys"
    using Cons.prems by (auto simp: js_get_def split: option.splits)
  show ?case
    using Cons.IH[OF vals] hd tl by (simp add: Let_def nths_Cons)
qed

lemma getDuplicates_nths:
  "getDuplicates arr =
     nths arr {i. arr ! i \<in> set object_prototype_keys \<or> arr ! i \<in> set (take i arr)}"
  by (simp add: getDuplicates_def getDuplicates_filter_nths)

lemma repeats_after_nths:
  "repeats_after earlier arr = nths arr {i. arr ! i \<in> set earlier \<or> arr ! i \<in> set (take i arr)}"
proof (induction arr arbitrary: earlier)
  case Nil
  then show ?case by simp
next
  case (Cons v arr)
  have tl: "{j. Suc j \<in> {i. (v # arr) ! i \<in> set earlier \<or> (v # arr) ! i \<in> set (take i (v # arr))}}
     = {i. arr ! i \<in> set (earlier @ [v]) \<or> arr ! i \<in> set (take i arr)}"
    by auto
  show ?case using Cons.IH[of "earlier @ [v]"] tl by (simp add: nths_Cons)
qed

lemma repeats_nths: "repeats arr = nths arr {i. arr ! i \<in> set (take i arr)}"
  by (simp add: repeats_def repeats_after_nths)

lemma length_repeats_after:
  "length (repeats_after earlier arr) + card (set earlier \<union> set arr) = length arr + card (set earlier)"
proof (induction arr arbitrary: earlier)
  case Nil
  then show ?case by simp
next
  case (Cons v arr)
  have un: "set (earlier @ [v]) \<union> set arr = set earlier \<union> set (v # arr)" by auto
  show ?case
  proof (cases "v \<in> set earlier")
    case True
    then have "card (set (earlier @ [v])) = card (set earlier)" by (simp add: insert_absorb)
    with Cons.IH[of "earlier @ [v]"] un True show ?thesis by simp
  next
    case False
    then have "card (set (earlier @ [v])) = Suc (card (set earlier))" by simp
    with Cons.IH[of "earlier @ [v]"] un False show ?thesis by simp
  qed
qed

lemma length_repeats: "length (repeats arr) = length arr - card (set arr)"
  using length_repeats_after[of "[]" arr] by (simp add: repeats_def)

lemma repeats_after_count:
  "x \<in> set (repeats_after earlier arr) \<Longrightarrow> x \<in> set arr \<and> (x \<in> set earlier \<or> 1 < count_list arr x)"
proof (induction arr arbitrary: earlier)
  case Nil
  then show ?case by simp
next
  case (Cons v arr)
  show ?case
  proof (cases "x = v")
    case True
    note xv = this
    show ?thesis
    proof (cases "v \<in> set earlier")
      case True
      with xv show ?thesis by simp
    next
      case False
      with Cons.prems xv have "v \<in> set (repeats_after (earlier @ [v]) arr)" by simp
      from Cons.IH[OF this[folded xv]] xv have "v \<in> set arr" by simp
      then have "0 < count_list arr v" using count_list_0_iff[of arr v] by auto
      with xv show ?thesis by simp
    qed
  next
    case False
    with Cons.prems have "x \<in> set (repeats_after (earlier @ [v]) arr)"
      by (simp split: if_splits)
    from Cons.IH[OF this] False show ?thesis by auto
  qed
qed

lemma repeats_count: "x \<in> set (repeats arr) \<Longrightarrow> 1 < count_list arr x"
  using repeats_after_count[of x "[]" arr] by (simp add: repeats_def)

lemma getDuplicates_filter_repeats:
  "(\<forall>k b. seen k = Some b \<longrightarrow> b) \<Longrightarrow> dom seen = set earlier \<Longrightarrow>
   set arr \<inter> set object_prototype_keys = {} \<Longrightarrow>
   getDuplicates_filter seen arr = repeats_after earlier arr"
proof (induction arr arbitrary: seen earlier)
  case Nil
  then show ?case by simp
next
  case (Cons v arr)
  from Cons.prems(3) have v: "v \<notin> set object_prototype_keys" by auto
  then have np: "v \<noteq> ''__proto__''" by (auto simp: object_prototype_keys_def)
  let ?seen' = "js_put seen v True"
  have 1: "\<forall>k b. ?seen' k = Some b \<longrightarrow> b" using Cons.prems(1) by (auto simp: js_put_def)
  have 2: "dom ?seen' = set (earlier @ [v])" using Cons.prems(2) np by (auto simp: js_put_def)
  have 3: "set arr \<inter> set object_prototype_keys = {}" using Cons.prems(3) by auto
  have hd: "truthy (js_get seen v) \<longleftrightarrow> v \<in> set earlier"
    using Cons.prems(1,2) v by (auto simp: js_get_def split: option.splits)
  show ?case using Cons.IH[OF 1 2 3] hd by (simp add: Let_def)
qed

lemma getDuplicates_repeats:
  "set arr \<inter> set object_prototype_keys = {} \<Longrightarrow> getDuplicates arr = repeats arr"
  by (simp add: getDuplicates_def repeats_def getDuplicates_filter_repeats)

lemma repeats_after_empty_iff:
  "repeats_after earlier arr = [] \<longleftrightarrow> distinct arr \<and> set earlier \<inter> set arr = {}"
  by (induction arr arbitrary: earlier) auto

lemma repeats_empty_iff: "repeats arr = [] \<longleftrightarrow> distinct arr"
  by (simp add: repeats_def repeats_after_empty_iff)

lemma getDuplicates_filter_empty_iff:
  "(\<forall>k b. seen k = Some b \<longrightarrow> b) \<Longrightarrow>
   getDuplicates_filter seen arr = [] \<longleftrightarrow>
     distinct arr \<and> set arr \<inter> (dom seen \<union> set object_prototype_keys) = {}"
proof (induction arr arbitrary: seen)
  case Nil
  then show ?case by simp
next
  case (Cons v arr)
  let ?seen' = "js_put seen v True"
  have vals: "\<forall>k b. ?seen' k = Some b \<longrightarrow> b"
    using Cons.prems by (auto simp: js_put_def)
  have hd: "truthy (js_get seen v) \<longleftrightarrow> v \<in> dom seen \<or> v \<in> set object_prototype_keys"
    using Cons.prems by (auto simp: js_get_def split: option.splits)
  have dom': "v \<notin> set object_prototype_keys \<Longrightarrow> dom ?seen' = insert v (dom seen)"
    by (auto simp: js_put_def object_prototype_keys_def)
  show ?case
  proof (cases "truthy (js_get seen v)")
    case True
    with hd show ?thesis by (auto simp: Let_def)
  next
    case False
    with hd have v: "v \<notin> dom seen" "v \<notin> set object_prototype_keys" by auto
    from False have "getDuplicates_filter seen (v # arr) = getDuplicates_filter ?seen' arr"
      by (simp add: Let_def)
    also have "\<dots> = [] \<longleftrightarrow>
        distinct arr \<and> set arr \<inter> (dom ?seen' \<union> set object_prototype_keys) = {}"
      using Cons.IH[OF vals] .
    finally show ?thesis using v dom'[OF v(2)] by auto
  qed
qed

lemma getDuplicates_empty_iff:
  "getDuplicates arr = [] \<longleftrightarrow> distinct arr \<and> set arr \<inter> set object_prototype_keys = {}"
  by (simp add: getDuplicates_def getDuplicates_filter_empty_iff)

lemma repeats_subset_getDuplicates: "set (repeats arr) \<subseteq> set (getDuplicates arr)"
  by (auto simp: repeats_nths getDuplicates_nths set_nths)

text \<open>
  C2. The claim: for every sequence \<open>S\<close>, \<^verbatim>\<open>getDuplicates(S)\<close> is the subsequence of
  the elements that repeat an earlier occurrence; a first occurrence is never returned and
  the result has length \<open>len(S) - len(set(S))\<close>. The code does not do this for the name of
  a property of \<^verbatim>\<open>Object.prototype\<close>: \<^verbatim>\<open>seen["constructor"]\<close> of the empty table is
  the inherited function, which is truthy, so the single, first occurrence is returned and
  the result has length 1 where the claim gives 0. (For sequences free of such names the
  code agrees with the claim: \<open>getDuplicates_repeats\<close>, \<open>length_repeats\<close>,
  \<open>repeats_count\<close>, \<open>repeats_nths\<close>.)
\<close>

theorem getDuplicates_constructor:
  "getDuplicates [''constructor''] = [''constructor''] \<and>
   repeats [''constructor''] = [] \<and>
   length (getDuplicates [''constructor'']) \<noteq>
     length [''constructor''] - card (set [''constructor''])"
  by (simp add: getDuplicates_def repeats_def js_get_def js_put_def object_prototype_keys_def Let_def)

section \<open>The steps of the legacy run\<close>

lemma sync_rejects_duplicate_names:
  assumes "getDuplicatesByKey (case tags ci of None \<Rightarrow> [] | Some xs \<Rightarrow> xs) name \<noteq> []"
  shows "sync ci qdb db =
    \<lparr>courseInfo_after = ci, calls = [],
     result = Inl (DuplicateTagNames (getDuplicatesByKey (case tags ci of None \<Rightarrow> [] | Some xs \<Rightarrow> xs) name))\<rparr>"
  using assms by (simp add: sync_def Let_def)

lemma sync_courseInfo_after:
  assumes "tags ci = Some ts" "getDuplicatesByKey ts name = []"
  shows "courseInfo_after (sync ci qdb db) = ci\<lparr>tags := Some (resolved_tags ts qdb)\<rparr>"
  using assms by (simp add: sync_def Let_def split: sum.splits)

lemma sync_result_passed:
  assumes "getDuplicatesByKey (case tags ci of None \<Rightarrow> [] | Some xs \<Rightarrow> xs) name = []"
  shows "result (sync ci qdb db) =
    (let pts = paramTags (resolved_tags (case tags ci of None \<Rightarrow> [] | Some xs \<Rightarrow> xs) qdb)
     in case propagate (sync_course_tags db pts (courseId ci)) of
          Inl err \<Rightarrow> Inl err
        | Inr ids \<Rightarrow>
            (case tagIdsByName pts ids of
               Inl err \<Rightarrow> Inl err
             | Inr m \<Rightarrow>
                 (case paramQuestionTags m qdb of
                    Inl err \<Rightarrow> Inl err
                  | Inr pqs \<Rightarrow> propagate (sync_question_tags db pqs))))"
  using assms by (simp add: sync_def Let_def split: sum.splits)

lemma put_other:
  "k \<notin> fst ` set ps \<Longrightarrow> foldl (\<lambda>a (n, i). js_put a n i) acc ps k = acc k"
  by (induction ps arbitrary: acc) (auto simp: js_put_def)

lemma put_dom:
  "dom (foldl (\<lambda>a (n, i). js_put a n i) acc ps) = dom acc \<union> (fst ` set ps - {''__proto__''})"
  by (induction ps arbitrary: acc) (auto simp: js_put_def split: if_splits)

lemma put_nth:
  "distinct ns \<Longrightarrow> i < length ns \<Longrightarrow> i < length ids \<Longrightarrow> ns ! i \<noteq> ''__proto__'' \<Longrightarrow>
   foldl (\<lambda>a (n, v). js_put a n v) acc (zip ns ids) (ns ! i) = Some (ids ! i)"
proof (induction ns arbitrary: ids i acc)
  case Nil
  then show ?case by simp
next
  case (Cons n ns)
  from Cons.prems(3) obtain v ids' where ids: "ids = v # ids'" by (cases ids) auto
  show ?case
  proof (cases i)
    case 0
    have "n \<notin> fst ` set (zip ns ids')" using Cons.prems(1) by (auto dest: set_zip_leftD)
    from put_other[OF this] Cons.prems(4) 0 ids show ?thesis by (simp add: js_put_def)
  next
    case (Suc j)
    with Cons.prems ids Cons.IH[of j ids'] show ?thesis by simp
  qed
qed

lemma tagIdsByName_reduce_ok:
  "index + length ids \<le> length pts \<Longrightarrow>
   tagIdsByName_reduce pts acc index ids =
     Inr (foldl (\<lambda>a (n, i). js_put a n i) acc (zip (map fst (drop index pts)) ids))"
proof (induction ids arbitrary: acc index)
  case Nil
  then show ?case by simp
next
  case (Cons i ids)
  then have lt: "index < length pts" by simp
  then have dr: "drop index pts = pts ! index # drop (Suc index) pts"
    by (simp add: Cons_nth_drop_Suc)
  from Cons.prems have "Suc index + length ids \<le> length pts" by simp
  from Cons.IH[OF this] lt dr show ?case by simp
qed

lemma tagIdsByName_reduce_TypeError:
  "length pts < index + length ids \<Longrightarrow> index \<le> length pts \<Longrightarrow>
   tagIdsByName_reduce pts acc index ids = Inl TypeError"
proof (induction ids arbitrary: acc index)
  case Nil
  then show ?case by simp
next
  case (Cons i ids)
  show ?case
  proof (cases "index < length pts")
    case True
    with Cons.prems Cons.IH[of "Suc index"] show ?thesis by simp
  next
    case False
    then show ?thesis by simp
  qed
qed

lemma tagIdsByName_ok:
  "length ids \<le> length pts \<Longrightarrow>
   tagIdsByName pts ids = Inr (foldl (\<lambda>a (n, i). js_put a n i) Map.empty (zip (map fst pts) ids))"
  using tagIdsByName_reduce_ok[of 0 ids pts Map.empty] by (simp add: tagIdsByName_def)

lemma tagIdsByName_TypeError:
  "length pts < length ids \<Longrightarrow> tagIdsByName pts ids = Inl TypeError"
  using tagIdsByName_reduce_TypeError[of pts 0 ids Map.empty] by (simp add: tagIdsByName_def)

lemma tagIdsByName_error: "tagIdsByName pts ids = Inl e \<Longrightarrow> e = TypeError"
  using tagIdsByName_ok[of ids pts] tagIdsByName_TypeError[of pts ids]
  by (cases "length ids \<le> length pts") auto

lemma fst_paramTags: "map fst (paramTags ts) = map name ts"
  by (simp add: paramTags_def)

lemma question_step_error:
  "question_step m (qid, q) = Inl e \<Longrightarrow>
     e = UnknownTags qid (filter (\<lambda>t. \<not> js_in t m) (tags_or_empty (question_tags q))) \<or>
     e = DuplicateTags qid (getDuplicates (tags_or_empty (question_tags q)))"
  by (auto simp: question_step_def Let_def split: if_splits)

lemma question_step_ok:
  "question_step m (qid, q) = Inr p \<longleftrightarrow>
     (\<forall>t \<in> set (tags_or_empty (question_tags q)). js_in t m) \<and>
     getDuplicates (tags_or_empty (question_tags q)) = [] \<and>
     p = (question_id q, map (js_get m) (tags_or_empty (question_tags q)))"
  by (auto simp: question_step_def Let_def filter_empty_conv)

lemma paramQuestionTags_error:
  "paramQuestionTags m qdb = Inl e \<Longrightarrow> \<exists>entry \<in> set qdb. question_step m entry = Inl e"
  by (induction qdb) (auto split: sum.splits)

lemma paramQuestionTags_ok:
  "paramQuestionTags m qdb = Inr ps \<Longrightarrow> list_all2 (\<lambda>entry p. question_step m entry = Inr p) qdb ps"
  by (induction qdb arbitrary: ps) (auto split: sum.splits)

lemma paramQuestionTags_fails:
  "entry \<in> set qdb \<Longrightarrow> question_step m entry = Inl e \<Longrightarrow> \<exists>e'. paramQuestionTags m qdb = Inl e'"
  by (induction qdb) (auto split: sum.splits)

lemma paramQuestionTags_first_failure:
  "paramQuestionTags m before = Inr ps \<Longrightarrow> question_step m entry = Inl e \<Longrightarrow>
   paramQuestionTags m (before @ entry # rest) = Inl e"
  by (induction before arbitrary: ps) (auto split: sum.splits)

lemma paramQuestionTags_Inr:
  "paramQuestionTags m qdb = Inr pqs \<Longrightarrow>
   pqs = map (\<lambda>(qid, q). (question_id q, map (js_get m) (tags_or_empty (question_tags q)))) qdb"
proof (induction qdb arbitrary: pqs)
  case Nil
  then show ?case by simp
next
  case (Cons e qdb)
  obtain qid q where e: "e = (qid, q)" by (cases e)
  from Cons.prems obtain p ps where p: "question_step m (qid, q) = Inr p"
    and ps: "paramQuestionTags m qdb = Inr ps" and pqs: "pqs = p # ps"
    by (auto simp: e split: sum.splits)
  from p have "p = (question_id q, map (js_get m) (tags_or_empty (question_tags q)))"
    by (simp add: question_step_ok)
  with Cons.IH[OF ps] pqs e show ?case by simp
qed

section \<open>The course-level duplicate check\<close>

lemma propagate_error: "propagate r = Inl e \<Longrightarrow> \<exists>msg. e = SqlError msg"
  by (auto simp: propagate_def split: sum.splits)

lemma sync_duplicate_names_error_iff:
  "(\<exists>ns. result (sync ci qdb db) = Inl (DuplicateTagNames ns)) \<longleftrightarrow>
     getDuplicatesByKey (case tags ci of None \<Rightarrow> [] | Some xs \<Rightarrow> xs) name \<noteq> []"
proof (cases "getDuplicatesByKey (case tags ci of None \<Rightarrow> [] | Some xs \<Rightarrow> xs) name = []")
  case True
  have "result (sync ci qdb db) \<noteq> Inl (DuplicateTagNames ns)" for ns
    unfolding sync_result_passed[OF True] Let_def
    by (auto split: sum.splits dest!: propagate_error tagIdsByName_error paramQuestionTags_error
        question_step_error)
  with True show ?thesis by simp
next
  case False
  have "result (sync ci qdb db) =
      Inl (DuplicateTagNames (getDuplicatesByKey (case tags ci of None \<Rightarrow> [] | Some xs \<Rightarrow> xs) name))"
    by (simp add: sync_rejects_duplicate_names[OF False])
  with False show ?thesis by blast
qed

lemma sync_duplicate_names_plain:
  assumes "tags ci = Some ts" "name ` set ts \<inter> set object_prototype_keys = {}"
  shows "(\<exists>ns. result (sync ci qdb db) = Inl (DuplicateTagNames ns)) \<longleftrightarrow> \<not> distinct (map name ts)"
  using assms by (auto simp: sync_duplicate_names_error_iff getDuplicatesByKey_def getDuplicates_empty_iff)

text \<open>
  C8. The claim: the legacy \<^verbatim>\<open>sync\<close> fails with the duplicate-name error if and only if
  some name occurs more than once in the course-level tag list; with distinct names no such
  error is raised and the run goes on. The check is \<^verbatim>\<open>getDuplicatesByKey(tags, 'name')\<close>,
  which also returns the name of any property of \<^verbatim>\<open>Object.prototype\<close>: a course whose
  only tag is named \<^verbatim>\<open>constructor\<close> is rejected with
  \<^verbatim>\<open>Duplicate tag names found: constructor\<close>, before any procedure is called. (For tag
  lists free of such names the equivalence holds: \<open>sync_duplicate_names_plain\<close>.)
\<close>

theorem sync_constructor_tag:
  "distinct (map name [\<lparr>name = ''constructor'', color = ''blue1'', description = ''d''\<rparr>]) \<and>
   result (sync \<lparr>tags = Some [\<lparr>name = ''constructor'', color = ''blue1'', description = ''d''\<rparr>],
                  courseId = cid\<rparr> [] db)
     = Inl (DuplicateTagNames [''constructor''])"
  by (simp add: sync_def getDuplicatesByKey_def getDuplicates_def js_get_def js_put_def
      object_prototype_keys_def Let_def)

section \<open>Placeholder tags\<close>

lemma set_missingTagNames:
  "set (missingTagNames ts qdb) = set (questionTagNames qdb) - name ` set ts"
  by (auto simp: missingTagNames_def)

lemma placeholders_appended:
  "resolved_tags ts qdb = ts @ map placeholder (missingTagNames ts qdb) \<and>
   length (resolved_tags ts qdb) = length ts + length (missingTagNames ts qdb) \<and>
   name ` set (map placeholder (missingTagNames ts qdb)) = set (questionTagNames qdb) - name ` set ts"
  by (auto simp: resolved_tags_def set_missingTagNames placeholder_def image_iff)

text \<open>
  C3. The claim: for every referenced name that is not declared, exactly one placeholder
  (color \<^verbatim>\<open>gray1\<close>, the fixed description) is appended, one per distinct missing name even
  when several questions reference it, and none for a declared name. The code maps over
  \<^verbatim>\<open>questionTagNames.filter(...)\<close>, a list with one entry per reference: two questions
  that reference the undeclared \<^verbatim>\<open>y\<close> give two placeholders named \<^verbatim>\<open>y\<close>. (What holds
  for every input is \<open>placeholders_appended\<close>: one placeholder per reference, their
  names exactly the referenced names that are not declared.)
\<close>

theorem sync_placeholder_per_reference:
  "missingTagNames [] [(''q1'', \<lparr>question_id = a, question_tags = Some [''y'']\<rparr>),
                       (''q2'', \<lparr>question_id = b, question_tags = Some [''y'']\<rparr>)] = [''y'', ''y''] \<and>
   tags (courseInfo_after
     (sync \<lparr>tags = Some [], courseId = cid\<rparr>
        [(''q1'', \<lparr>question_id = a, question_tags = Some [''y'']\<rparr>),
         (''q2'', \<lparr>question_id = b, question_tags = Some [''y'']\<rparr>)] db))
   = Some [\<lparr>name = ''y'', color = ''gray1'',
            description = ''Auto-generated from use in a question; add this tag to your courseInfo.json file to customize''\<rparr>,
           \<lparr>name = ''y'', color = ''gray1'',
            description = ''Auto-generated from use in a question; add this tag to your courseInfo.json file to customize''\<rparr>]"
  by (simp add: sync_courseInfo_after getDuplicatesByKey_def getDuplicates_def resolved_tags_def
      missingTagNames_def questionTagNames_def tags_or_empty_def placeholder_def)

text \<open>
  \<^verbatim>\<open>sync\<close> changes its argument: when \<^verbatim>\<open>courseInfo.tags\<close> is present and the
  course-level duplicate check has passed, then whatever the database does afterwards
  (also when the run fails later), \<^verbatim>\<open>courseInfo.tags\<close> ends as the old list followed by
  one placeholder for every entry of \<^verbatim>\<open>missingTagNames\<close>, the references by questions to
  names that are not declared; nothing else of \<^verbatim>\<open>courseInfo\<close> changes.
\<close>

lemma sync_extends_courseInfo_tags:
  assumes "tags courseInfo = Some ts" and "getDuplicatesByKey ts name = []"
  shows "courseInfo_after (sync courseInfo questionDB db) =
           courseInfo\<lparr>tags := Some (ts @ map placeholder (missingTagNames ts questionDB))\<rparr> \<and>
         map name (map placeholder (missingTagNames ts questionDB)) =
           filter (\<lambda>n. n \<notin> name ` set ts) (questionTagNames questionDB)"
  using assms
  by (simp add: sync_courseInfo_after resolved_tags_def missingTagNames_def placeholder_def comp_def)

text \<open>
  C9. The claim: when \<^verbatim>\<open>courseInfo.tags\<close> is present, \<^verbatim>\<open>sync\<close> pushes the placeholders
  onto the caller's array, so that after a run, also one that fails later,
  \<^verbatim>\<open>courseInfo.tags\<close> has been extended in place by one entry per missing referenced name.
  The array is extended in place, also when the first procedure call rejects, but by one
  entry per reference: with \<^verbatim>\<open>x\<close> declared and the undeclared \<^verbatim>\<open>y\<close> referenced by two
  questions, the one missing name gives two new entries.
\<close>

theorem sync_placeholders_twice_on_failure:
  "result (sync \<lparr>tags = Some [\<lparr>name = ''x'', color = ''blue1'', description = ''d''\<rparr>], courseId = (7::nat)\<rparr>
             [(''q1'', \<lparr>question_id = (1::nat), question_tags = Some [''y'']\<rparr>),
              (''q2'', \<lparr>question_id = 2, question_tags = Some [''x'', ''y'']\<rparr>)] rejecting_db)
     = Inl (SqlError ''connection terminated'') \<and>
   tags (courseInfo_after
     (sync \<lparr>tags = Some [\<lparr>name = ''x'', color = ''blue1'', description = ''d''\<rparr>], courseId = (7::nat)\<rparr>
             [(''q1'', \<lparr>question_id = (1::nat), question_tags = Some [''y'']\<rparr>),
              (''q2'', \<lparr>question_id = 2, question_tags = Some [''x'', ''y'']\<rparr>)] rejecting_db))
     = Some [\<lparr>name = ''x'', color = ''blue1'', description = ''d''\<rparr>, placeholder ''y'', placeholder ''y''] \<and>
   set (questionTagNames
          [(''q1'', \<lparr>question_id = (1::nat), question_tags = Some [''y'']\<rparr>),
           (''q2'', \<lparr>question_id = 2, question_tags = Some [''x'', ''y'']\<rparr>)])
     - name ` set [\<lparr>name = ''x'', color = ''blue1'', description = ''d''\<rparr>] = {''y''}"
proof -
  let ?x = "\<lparr>name = ''x'', color = ''blue1'', description = ''d''\<rparr>"
  let ?ci = "\<lparr>tags = Some [?x], courseId = (7::nat)\<rparr>"
  let ?qdb = "[(''q1'', \<lparr>question_id = (1::nat), question_tags = Some [''y'']\<rparr>),
              (''q2'', \<lparr>question_id = 2, question_tags = Some [''x'', ''y'']\<rparr>)]"
  have d: "getDuplicatesByKey [?x] name = []"
    by (simp add: getDuplicatesByKey_def getDuplicates_def js_get_def js_put_def
        object_prototype_keys_def Let_def)
  have r: "result (sync ?ci ?qdb rejecting_db) = Inl (SqlError ''connection terminated'')"
    using d by (simp add: sync_result_passed rejecting_db_def propagate_def)
  have a: "tags (courseInfo_after (sync ?ci ?qdb rejecting_db)) = Some [?x, placeholder ''y'', placeholder ''y'']"
    using d by (simp add: sync_courseInfo_after resolved_tags_def missingTagNames_def
        questionTagNames_def tags_or_empty_def)
  have n: "set (questionTagNames ?qdb) - name ` set [?x] = {''y''}"
    by (auto simp: questionTagNames_def tags_or_empty_def)
  from r a n show ?thesis by blast
qed
section \<open>The positional name-to-id table\<close>

text \<open>
  For every index \<open>i\<close> into the encoded tuples, \<^verbatim>\<open>paramTags[i][0]\<close> is the name of the
  \<open>i\<close>-th tag of the list that was encoded, and the reduce over \<^verbatim>\<open>new_tag_ids\<close> writes the
  \<open>j\<close>-th id under the key \<^verbatim>\<open>paramTags[j][0]\<close>: with no more ids than tags the table is the
  fold of these writes over the pairs of names and ids. When the names are distinct the
  table maps the name of tag \<open>i\<close> to the \<open>i\<close>-th id (the key \<^verbatim>\<open>__proto__\<close> apart, whose write
  does nothing).
\<close>

lemma paramTags_roundtrip:
  assumes "i < length ts"
  shows "fst (paramTags ts ! i) = name (ts ! i) \<and>
         paramTags ts ! i = (name (ts ! i), color (ts ! i), description (ts ! i)) \<and>
         (\<forall>ids. i < length ids \<and> length ids \<le> length ts \<longrightarrow>
            (\<exists>m. tagIdsByName (paramTags ts) ids = Inr m \<and>
                 m = foldl (\<lambda>acc (n, v). js_put acc n v) Map.empty (zip (map name ts) ids) \<and>
                 (distinct (map name ts) \<and> name (ts ! i) \<noteq> ''__proto__'' \<longrightarrow>
                    m (name (ts ! i)) = Some (ids ! i))))"
proof -
  have 1: "paramTags ts ! i = (name (ts ! i), color (ts ! i), description (ts ! i))"
    using assms by (simp add: paramTags_def)
  have 2: "\<exists>m. tagIdsByName (paramTags ts) ids = Inr m \<and>
                 m = foldl (\<lambda>acc (n, v). js_put acc n v) Map.empty (zip (map name ts) ids) \<and>
                 (distinct (map name ts) \<and> name (ts ! i) \<noteq> ''__proto__'' \<longrightarrow>
                    m (name (ts ! i)) = Some (ids ! i))"
    if "i < length ids" "length ids \<le> length ts" for ids :: "'a list"
  proof -
    have "length ids \<le> length (paramTags ts)" using that by (simp add: paramTags_def)
    from tagIdsByName_ok[OF this]
    have ok: "tagIdsByName (paramTags ts) ids =
        Inr (foldl (\<lambda>acc (n, v). js_put acc n v) Map.empty (zip (map name ts) ids))"
      by (simp add: fst_paramTags)
    have "foldl (\<lambda>acc (n, v). js_put acc n v) Map.empty (zip (map name ts) ids) (name (ts ! i))
          = Some (ids ! i)"
      if "distinct (map name ts)" "name (ts ! i) \<noteq> ''__proto__''"
      using put_nth[of "map name ts" i ids Map.empty] that assms \<open>i < length ids\<close> by simp
    with ok show ?thesis by simp
  qed
  from 1 2 show ?thesis by simp
qed

section \<open>The per-question checks of the legacy run\<close>

lemma paramQuestionTags_every_step:
  "paramQuestionTags m qdb = Inr ps \<Longrightarrow> entry \<in> set qdb \<Longrightarrow> \<exists>p. question_step m entry = Inr p"
  by (induction qdb arbitrary: ps) (auto split: sum.splits)

lemma sync_success_names_resolved:
  assumes "result (sync ci qdb db) = Inr ()"
  shows "\<exists>ids m.
     sync_course_tags db (paramTags (resolved_tags (case tags ci of None \<Rightarrow> [] | Some xs \<Rightarrow> xs) qdb))
       (courseId ci) = Inr ids \<and>
     tagIdsByName (paramTags (resolved_tags (case tags ci of None \<Rightarrow> [] | Some xs \<Rightarrow> xs) qdb)) ids = Inr m \<and>
     (\<forall>t \<in> set (questionTagNames qdb). m t \<noteq> None)"
proof -
  let ?ts = "case tags ci of None \<Rightarrow> [] | Some xs \<Rightarrow> xs"
  let ?pts = "paramTags (resolved_tags ?ts qdb)"
  have passed: "getDuplicatesByKey ?ts name = []"
  proof (rule ccontr)
    assume "getDuplicatesByKey ?ts name \<noteq> []"
    from sync_rejects_duplicate_names[OF this, of qdb db] assms show False by simp
  qed
  from assms obtain ids where ids: "sync_course_tags db ?pts (courseId ci) = Inr ids"
    unfolding sync_result_passed[OF passed] Let_def propagate_def by (auto split: sum.splits)
  with assms obtain m where m: "tagIdsByName ?pts ids = Inr m"
    unfolding sync_result_passed[OF passed] Let_def propagate_def by (auto split: sum.splits)
  with assms ids obtain pqs where pqs: "paramQuestionTags m qdb = Inr pqs"
    unfolding sync_result_passed[OF passed] Let_def propagate_def by (auto split: sum.splits)
  have "m t \<noteq> None" if "t \<in> set (questionTagNames qdb)" for t
  proof -
    from that obtain qid q where e: "(qid, q) \<in> set qdb" and t: "t \<in> set (tags_or_empty (question_tags q))"
      by (auto simp: questionTagNames_def)
    from paramQuestionTags_every_step[OF pqs e] obtain p where "question_step m (qid, q) = Inr p"
      by blast
    then have "\<forall>t \<in> set (tags_or_empty (question_tags q)). js_in t m"
      and "getDuplicates (tags_or_empty (question_tags q)) = []"
      by (simp_all add: question_step_ok)
    with t have "js_in t m" "t \<notin> set object_prototype_keys"
      by (auto simp: getDuplicates_empty_iff)
    then show ?thesis by (simp add: js_in_def)
  qed
  with ids m show ?thesis by blast
qed

lemma repeated_tag_fails_step:
  assumes "\<not> distinct (tags_or_empty (question_tags q))"
  shows "\<exists>e. question_step m (qid, q) = Inl e"
  using assms by (auto simp: question_step_def Let_def getDuplicates_empty_iff)

lemma sync_fails_on_repeated_question_tag:
  assumes "(qid, q) \<in> set qdb" and "\<not> distinct (tags_or_empty (question_tags q))"
  shows "\<exists>e. result (sync ci qdb db) = Inl e"
proof (cases "getDuplicatesByKey (case tags ci of None \<Rightarrow> [] | Some xs \<Rightarrow> xs) name = []")
  case True
  have "\<exists>e'. paramQuestionTags m qdb = Inl e'" for m :: "'c js_object"
    using repeated_tag_fails_step[OF assms(2), of m qid] paramQuestionTags_fails[OF assms(1)]
    by blast
  then show ?thesis
    unfolding sync_result_passed[OF True] Let_def
    by (auto split: sum.splits) (metis Inl_Inr_False)
next
  case False
  from sync_rejects_duplicate_names[OF False, of qdb db] show ?thesis by simp
qed

lemma sync_names_question:
  assumes "getDuplicatesByKey (case tags ci of None \<Rightarrow> [] | Some xs \<Rightarrow> xs) name = []"
    and "sync_course_tags db (paramTags (resolved_tags (case tags ci of None \<Rightarrow> [] | Some xs \<Rightarrow> xs)
           (before @ (qid, q) # rest))) (courseId ci) = Inr ids"
    and "tagIdsByName (paramTags (resolved_tags (case tags ci of None \<Rightarrow> [] | Some xs \<Rightarrow> xs)
           (before @ (qid, q) # rest))) ids = Inr m"
    and "paramQuestionTags m before = Inr ps"
    and "\<forall>t \<in> set (tags_or_empty (question_tags q)). js_in t m"
    and "\<not> distinct (tags_or_empty (question_tags q))"
  shows "result (sync ci (before @ (qid, q) # rest) db) =
           Inl (DuplicateTags qid (getDuplicates (tags_or_empty (question_tags q))))"
proof -
  have "getDuplicates (tags_or_empty (question_tags q)) \<noteq> []"
    using assms(6) by (simp add: getDuplicates_empty_iff)
  with assms(5) have "question_step m (qid, q) =
      Inl (DuplicateTags qid (getDuplicates (tags_or_empty (question_tags q))))"
    by (simp add: question_step_def Let_def filter_empty_conv)
  from paramQuestionTags_first_failure[OF assms(4) this]
  show ?thesis
    unfolding sync_result_passed[OF assms(1)] Let_def using assms(2,3)
    by (simp add: propagate_def)
qed

section \<open>The steps of syncNew\<close>

lemma set_foldl_set_add: "set (foldl set_add s xs) = set s \<union> set xs"
  by (induction xs arbitrary: s) (auto simp: set_add_def)

lemma distinct_foldl_set_add: "distinct s \<Longrightarrow> distinct (foldl set_add s xs)"
  by (induction xs arbitrary: s) (auto simp: set_add_def)

lemma length_foldl_set_add: "length (foldl set_add [] xs) = card (set xs)"
  using distinct_card[of "foldl set_add [] xs"] by (simp add: distinct_foldl_set_add set_foldl_set_add)

lemma foldl_set_add_distinct: "distinct (s @ xs) \<Longrightarrow> foldl set_add s xs = s @ xs"
  by (induction xs arbitrary: s) (auto simp: set_add_def)

lemma knownQuestionTagsNames_error_free:
  "knownQuestionTagsNames s (error_free qs) = knownQuestionTagsNames s qs"
  by (induction s qs rule: knownQuestionTagsNames.induct) (auto simp: error_free_def split: option.splits)

lemma knownQuestionTagsNames_loaded:
  "\<forall>(qid, q) \<in> set qs. \<not> hasErrors q \<longrightarrow> data q \<noteq> None \<Longrightarrow>
   knownQuestionTagsNames s qs =
     Inr (foldl set_add s (concat (map (\<lambda>(qid, q). referenced_names q) (error_free qs))))"
  by (induction s qs rule: knownQuestionTagsNames.induct)
     (auto simp: error_free_def referenced_names_def split: option.splits)

lemma knownQuestionTagsNames_error: "knownQuestionTagsNames s qs = Inl e \<Longrightarrow> e = TypeError"
  by (induction s qs rule: knownQuestionTagsNames.induct) (auto split: option.splits if_splits)

lemma questionTagsParam_error_free:
  "questionTagsParam qids m (error_free qs) = questionTagsParam qids m qs"
  by (induction qids m qs rule: questionTagsParam.induct) (auto simp: error_free_def split: option.splits)

lemma questionTagsParam_loaded:
  "\<forall>(qid, q) \<in> set qs. \<not> hasErrors q \<longrightarrow> data q \<noteq> None \<Longrightarrow>
   questionTagsParam qids m qs =
     Inr (map (\<lambda>(qid, q). (js_get qids qid, map (map_get m) (foldl set_add [] (referenced_names q))))
            (error_free qs))"
  by (induction qids m qs rule: questionTagsParam.induct)
     (auto simp: error_free_def referenced_names_def question_entry_def Let_def split: option.splits)

lemma questionTagsParam_error: "questionTagsParam qids m qs = Inl e \<Longrightarrow> e = TypeError"
  by (induction qids m qs rule: questionTagsParam.induct) (auto split: option.splits if_splits sum.splits)

lemma courseTags_error: "courseTags cd = Inl e \<Longrightarrow> e = TypeError"
  by (auto simp: courseTags_def split: if_splits option.splits)

lemma tagIdsByName_new_fold:
  "foldl (\<lambda>acc (n, i). acc(n \<mapsto> i)) m ps = m ++ map_of (rev ps)"
  by (induction ps arbitrary: m) (auto simp: map_add_def fun_eq_iff split: option.splits)

lemma tagIdsByName_new_map_of: "tagIdsByName_new newTags = map_of (rev newTags)"
  by (simp add: tagIdsByName_new_def tagIdsByName_new_fold)

lemma dom_tagIdsByName_new: "dom (tagIdsByName_new newTags) = fst ` set newTags"
  by (simp add: tagIdsByName_new_map_of dom_map_of_conv_image_fst)

lemma map_get_Undefined: "map_get m t = Undefined \<longleftrightarrow> t \<notin> dom m"
  by (auto simp: map_get_def split: option.splits)

lemma syncNew_error_free:
  "syncNew cid (cd\<lparr>questions := error_free (questions cd)\<rparr>) qids db = syncNew cid cd qids db"
proof -
  let ?cd = "cd\<lparr>questions := error_free (questions cd)\<rparr>"
  have 1: "courseTags ?cd = courseTags cd" by (simp add: courseTags_def)
  have 2: "knownQuestionTagsNames [] (questions ?cd) = knownQuestionTagsNames [] (questions cd)"
    by (simp add: knownQuestionTagsNames_error_free)
  have 3: "questions ?cd = error_free (questions cd)" by simp
  have 4: "hasErrors (course ?cd) = hasErrors (course cd)" by simp
  show ?thesis unfolding syncNew_def 1 2 4 unfolding 3 questionTagsParam_error_free ..
qed

lemma syncNew_no_configuration_error:
  "new_result (syncNew cid cd qids db) = Inl e \<Longrightarrow> e = TypeError \<or> (\<exists>msg. e = SqlError msg)"
  by (auto simp: syncNew_def Let_def split: sum.splits
      dest: courseTags_error knownQuestionTagsNames_error questionTagsParam_error propagate_error)

lemma knownQuestionTagsNames_Inr:
  "knownQuestionTagsNames s qs = Inr names \<Longrightarrow>
   names = foldl set_add s (concat (map (\<lambda>(qid, q). referenced_names q) (error_free qs)))"
  by (induction s qs arbitrary: names rule: knownQuestionTagsNames.induct)
     (auto simp: error_free_def referenced_names_def split: option.splits if_splits)

lemma questionTagsParam_Inr:
  "questionTagsParam qids m qs = Inr qtp \<Longrightarrow>
   qtp = map (\<lambda>(qid, q). (js_get qids qid, map (map_get m) (foldl set_add [] (referenced_names q))))
           (error_free qs)"
  by (induction qids m qs arbitrary: qtp rule: questionTagsParam.induct)
     (auto simp: error_free_def referenced_names_def question_entry_def Let_def
        split: option.splits if_splits sum.splits)

lemma courseTags_Inr:
  "courseTags cd = Inr cts \<Longrightarrow>
   cts = (if hasErrors (course cd) then []
          else case data (course cd) of
                 None \<Rightarrow> []
               | Some d \<Rightarrow> map (\<lambda>t. (name t, description t, color t)) (course_tags d))"
  by (auto simp: courseTags_def split: if_splits option.splits)

lemma syncNew_run:
  assumes "courseTags cd = Inr cts"
    and "\<forall>(qid, q) \<in> set (questions cd). \<not> hasErrors q \<longrightarrow> data q \<noteq> None"
  shows "syncNew cid cd qids db =
    (let names = foldl set_add [] (concat (map (\<lambda>(qid, q). referenced_names q) (error_free (questions cd))));
         call1 = Call_sync_course_tags_new (\<not> hasErrors (course cd)) cts names cid
     in case sync_course_tags_new db (\<not> hasErrors (course cd)) cts names cid of
          Inl msg \<Rightarrow> \<lparr>new_calls = [call1], new_result = Inl (SqlError msg)\<rparr>
        | Inr newTags \<Rightarrow>
            (let qtp = map (\<lambda>(qid, q). (js_get qids qid,
                              map (map_get (tagIdsByName_new newTags))
                                (foldl set_add [] (referenced_names q))))
                         (error_free (questions cd))
             in \<lparr>new_calls = [call1, Call_sync_question_tags_new qtp],
                 new_result = propagate (sync_question_tags_new db qtp)\<rparr>))"
  using assms(1)
  by (simp add: syncNew_def knownQuestionTagsNames_loaded[OF assms(2)]
      questionTagsParam_loaded[OF assms(2)] Let_def propagate_def split: sum.splits)

section \<open>The two runs in terms of lists and tables\<close>

text \<open>
  The calls of \<^verbatim>\<open>sync\<close> and the run of \<^verbatim>\<open>syncNew\<close> written out: the name-to-id table as
  the association list of the returned pairs read from the back (a later pair replaces an
  earlier one), a \<^verbatim>\<open>Set\<close> as the list without its later repetitions.
\<close>

lemma put_fold_map_of:
  "foldl (\<lambda>a (n, v). js_put a n v) acc ps k =
     (if k = ''__proto__'' then acc k else (acc ++ map_of (rev ps)) k)"
  by (induction ps arbitrary: acc) (auto simp: js_put_def map_add_def split: option.splits)

lemma tagIdsByName_lookup:
  assumes "length ids \<le> length pts" and "tagIdsByName pts ids = Inr m"
  shows "m k = (if k = ''__proto__'' then None else map_of (rev (zip (map fst pts) ids)) k)"
proof -
  from assms tagIdsByName_ok[OF assms(1)]
  have "m = foldl (\<lambda>a (n, v). js_put a n v) Map.empty (zip (map fst pts) ids)" by simp
  then show ?thesis by (simp add: put_fold_map_of)
qed

lemma paramQuestionTags_all_ok:
  "\<forall>e \<in> set qdb. \<exists>p. question_step m e = Inr p \<Longrightarrow> \<exists>pqs. paramQuestionTags m qdb = Inr pqs"
  by (induction qdb) (auto split: sum.splits)

lemma remdups_snoc: "remdups (ys @ [x]) = remdups (filter (\<lambda>y. y \<noteq> x) ys) @ [x]"
  by (induction ys) auto

lemma foldl_set_add_remdups_gen:
  "foldl set_add s xs = s @ rev (remdups (rev (filter (\<lambda>x. x \<notin> set s) xs)))"
proof (induction xs arbitrary: s)
  case Nil
  then show ?case by simp
next
  case (Cons x xs)
  show ?case
  proof (cases "x \<in> set s")
    case True
    with Cons.IH[of s] show ?thesis by (simp add: set_add_def)
  next
    case False
    have f: "filter (\<lambda>y. y \<notin> set (s @ [x])) xs = filter (\<lambda>y. y \<noteq> x) (filter (\<lambda>y. y \<notin> set s) xs)"
      by (induction xs) auto
    have "foldl set_add s (x # xs) = foldl set_add (s @ [x]) xs"
      using False by (simp add: set_add_def)
    also have "\<dots> = (s @ [x]) @ rev (remdups (rev (filter (\<lambda>y. y \<noteq> x) (filter (\<lambda>y. y \<notin> set s) xs))))"
      using Cons.IH[of "s @ [x]"] unfolding f .
    also have "\<dots> = s @ rev (remdups (rev (filter (\<lambda>y. y \<notin> set s) xs) @ [x]))"
      by (simp add: remdups_snoc rev_filter)
    also have "\<dots> = s @ rev (remdups (rev (filter (\<lambda>y. y \<notin> set s) (x # xs))))"
      using False by simp
    finally show ?thesis .
  qed
qed

lemma foldl_set_add_remdups: "foldl set_add [] xs = rev (remdups (rev xs))"
  using foldl_set_add_remdups_gen[of "[]" xs] by simp


lemma sync_calls_passed:
  assumes "getDuplicatesByKey (case tags ci of None \<Rightarrow> [] | Some xs \<Rightarrow> xs) name = []"
  shows "calls (sync ci qdb db) =
    (let pts = paramTags (resolved_tags (case tags ci of None \<Rightarrow> [] | Some xs \<Rightarrow> xs) qdb);
         call1 = Call_sync_course_tags pts (courseId ci)
     in case sync_course_tags db pts (courseId ci) of
          Inl msg \<Rightarrow> [call1]
        | Inr ids \<Rightarrow>
            (case tagIdsByName pts ids of
               Inl err \<Rightarrow> [call1]
             | Inr m \<Rightarrow>
                 (case paramQuestionTags m qdb of
                    Inl err \<Rightarrow> [call1]
                  | Inr pqs \<Rightarrow> [call1, Call_sync_question_tags pqs])))"
  using assms by (simp add: sync_def Let_def propagate_def split: sum.splits)

lemma question_step_explicit:
  assumes m: "\<And>k. m k = (if k = ''__proto__'' then None else tbl k)"
  shows "question_step m (qid, q) = Inr p \<longleftrightarrow>
     distinct (tags_or_empty (question_tags q)) \<and>
     set (tags_or_empty (question_tags q)) \<inter> set object_prototype_keys = {} \<and>
     set (tags_or_empty (question_tags q)) \<subseteq> dom tbl \<and>
     p = (question_id q,
          map (\<lambda>t. case tbl t of Some i \<Rightarrow> Own i | None \<Rightarrow> Undefined) (tags_or_empty (question_tags q)))"
proof -
  let ?qts = "tags_or_empty (question_tags q)"
  have pk: "''__proto__'' \<in> set object_prototype_keys" by (simp add: object_prototype_keys_def)
  have g: "js_get m t = (case tbl t of Some i \<Rightarrow> Own i | None \<Rightarrow> Undefined)"
    and i: "js_in t m \<longleftrightarrow> t \<in> dom tbl"
    if "t \<notin> set object_prototype_keys" for t
  proof -
    from that pk have "t \<noteq> ''__proto__''" by auto
    then have mt: "m t = tbl t" by (simp add: m)
    show "js_get m t = (case tbl t of Some i \<Rightarrow> Own i | None \<Rightarrow> Undefined)"
      using that by (simp add: js_get_def mt split: option.splits)
    show "js_in t m \<longleftrightarrow> t \<in> dom tbl"
      using that by (auto simp: js_in_def mt)
  qed
  have A: "question_step m (qid, q) = Inr p \<longleftrightarrow>
     (\<forall>t \<in> set ?qts. js_in t m) \<and> getDuplicates ?qts = [] \<and>
     p = (question_id q, map (js_get m) ?qts)"
    by (rule question_step_ok)
  show ?thesis
  proof (cases "set ?qts \<inter> set object_prototype_keys = {}")
    case True
    then have np: "\<And>t. t \<in> set ?qts \<Longrightarrow> t \<notin> set object_prototype_keys" by auto
    have eq1: "map (js_get m) ?qts = map (\<lambda>t. case tbl t of Some i \<Rightarrow> Own i | None \<Rightarrow> Undefined) ?qts"
      using np g by (intro map_cong) auto
    have eq2: "(\<forall>t \<in> set ?qts. js_in t m) \<longleftrightarrow> set ?qts \<subseteq> dom tbl"
      using np i by blast
    from A have "question_step m (qid, q) = Inr p \<longleftrightarrow>
       set ?qts \<subseteq> dom tbl \<and> (distinct ?qts \<and> set ?qts \<inter> set object_prototype_keys = {}) \<and>
       p = (question_id q, map (\<lambda>t. case tbl t of Some i \<Rightarrow> Own i | None \<Rightarrow> Undefined) ?qts)"
      unfolding eq1 eq2 getDuplicates_empty_iff .
    then show ?thesis by blast
  next
    case False
    from A have "question_step m (qid, q) \<noteq> Inr p"
      unfolding getDuplicates_empty_iff using False by blast
    with False show ?thesis by blast
  qed
qed

lemma paramQuestionTags_explicit_ok:
  assumes m: "\<And>k. m k = (if k = ''__proto__'' then None else tbl k)"
  shows "\<forall>(qid, q) \<in> set qdb.
            distinct (tags_or_empty (question_tags q)) \<and>
            set (tags_or_empty (question_tags q)) \<inter> set object_prototype_keys = {} \<and>
            set (tags_or_empty (question_tags q)) \<subseteq> dom tbl \<Longrightarrow>
     paramQuestionTags m qdb =
       Inr (map (\<lambda>(qid, q). (question_id q,
                  map (\<lambda>t. case tbl t of Some i \<Rightarrow> Own i | None \<Rightarrow> Undefined)
                    (tags_or_empty (question_tags q)))) qdb)"
proof (induction qdb)
  case Nil
  then show ?case by simp
next
  case (Cons e qdb)
  obtain qid q where e: "e = (qid, q)" by (cases e)
  from Cons.prems e have c: "distinct (tags_or_empty (question_tags q)) \<and>
            set (tags_or_empty (question_tags q)) \<inter> set object_prototype_keys = {} \<and>
            set (tags_or_empty (question_tags q)) \<subseteq> dom tbl" by simp
  have st: "question_step m (qid, q) = Inr (question_id q,
          map (\<lambda>t. case tbl t of Some i \<Rightarrow> Own i | None \<Rightarrow> Undefined) (tags_or_empty (question_tags q)))"
    using question_step_explicit[of m tbl qid q, OF m] c by blast
  from Cons.prems have "\<forall>(qid, q) \<in> set qdb.
            distinct (tags_or_empty (question_tags q)) \<and>
            set (tags_or_empty (question_tags q)) \<inter> set object_prototype_keys = {} \<and>
            set (tags_or_empty (question_tags q)) \<subseteq> dom tbl" by simp
  from Cons.IH[OF this] st e show ?case by simp
qed

lemma paramQuestionTags_explicit_fail:
  assumes m: "\<And>k. m k = (if k = ''__proto__'' then None else tbl k)"
    and "\<not> (\<forall>(qid, q) \<in> set qdb.
            distinct (tags_or_empty (question_tags q)) \<and>
            set (tags_or_empty (question_tags q)) \<inter> set object_prototype_keys = {} \<and>
            set (tags_or_empty (question_tags q)) \<subseteq> dom tbl)"
  shows "\<exists>err. paramQuestionTags m qdb = Inl err"
proof -
  from assms(2) obtain qid q where e: "(qid, q) \<in> set qdb"
    and c: "\<not> (distinct (tags_or_empty (question_tags q)) \<and>
            set (tags_or_empty (question_tags q)) \<inter> set object_prototype_keys = {} \<and>
            set (tags_or_empty (question_tags q)) \<subseteq> dom tbl)" by auto
  have "question_step m (qid, q) \<noteq> Inr p" for p
    using question_step_explicit[of m tbl qid q p, OF m] c by blast
  then obtain err where "question_step m (qid, q) = Inl err"
    by (cases "question_step m (qid, q)") auto
  from paramQuestionTags_fails[OF e this] show ?thesis .
qed


lemma dom_zip_table:
  "length ids \<le> length ns \<Longrightarrow> dom (map_of (rev (zip ns ids))) = set (take (length ids) ns)"
proof -
  assume le: "length ids \<le> length ns"
  have "dom (map_of (rev (zip ns ids))) = set (map fst (zip ns ids))"
    by (simp add: dom_map_of_conv_image_fst)
  also have "map fst (zip ns ids) = take (length ids) ns"
    using le by (simp add: map_fst_zip_take min_def)
  finally show ?thesis .
qed

lemma sync_calls_explicit:
  "calls (sync ci qdb db) =
    (let ts = (case tags ci of None \<Rightarrow> [] | Some xs \<Rightarrow> xs);
         rts = resolved_tags ts qdb;
         pts = map (\<lambda>t. (name t, color t, description t)) rts;
         call1 = Call_sync_course_tags pts (courseId ci)
     in if \<not> (distinct (map name ts) \<and> name ` set ts \<inter> set object_prototype_keys = {}) then []
        else case sync_course_tags db pts (courseId ci) of
               Inl msg \<Rightarrow> [call1]
             | Inr ids \<Rightarrow>
                 if length ids \<le> length rts \<and>
                    (\<forall>(qid, q) \<in> set qdb.
                        distinct (tags_or_empty (question_tags q)) \<and>
                        set (tags_or_empty (question_tags q)) \<inter> set object_prototype_keys = {} \<and>
                        set (tags_or_empty (question_tags q)) \<subseteq> set (take (length ids) (map name rts)))
                 then [call1,
                       Call_sync_question_tags
                         (map (\<lambda>(qid, q). (question_id q,
                                 map (\<lambda>t. case map_of (rev (zip (map name rts) ids)) t of
                                             Some i \<Rightarrow> Own i | None \<Rightarrow> Undefined)
                                   (tags_or_empty (question_tags q)))) qdb)]
                 else [call1])"
proof -
  let ?ts = "case tags ci of None \<Rightarrow> [] | Some xs \<Rightarrow> xs"
  let ?rts = "resolved_tags ?ts qdb"
  let ?pts = "map (\<lambda>t. (name t, color t, description t)) ?rts"
  let ?call1 = "Call_sync_course_tags ?pts (courseId ci)"
  let ?ok = "\<lambda>ids. \<forall>(qid, q) \<in> set qdb.
                        distinct (tags_or_empty (question_tags q)) \<and>
                        set (tags_or_empty (question_tags q)) \<inter> set object_prototype_keys = {} \<and>
                        set (tags_or_empty (question_tags q)) \<subseteq> set (take (length ids) (map name ?rts))"
  let ?payload = "\<lambda>ids. map (\<lambda>(qid, q). (question_id q,
                                 map (\<lambda>t. case map_of (rev (zip (map name ?rts) ids)) t of
                                             Some i \<Rightarrow> Own i | None \<Rightarrow> Undefined)
                                   (tags_or_empty (question_tags q)))) qdb"
  have pts: "paramTags ?rts = ?pts" by (simp add: paramTags_def)
  have chk: "getDuplicatesByKey ?ts name = [] \<longleftrightarrow>
      distinct (map name ?ts) \<and> name ` set ?ts \<inter> set object_prototype_keys = {}"
    by (simp add: getDuplicatesByKey_def getDuplicates_empty_iff)
  show ?thesis
  proof (cases "getDuplicatesByKey ?ts name = []")
    case False
    have "calls (sync ci qdb db) = []"
      by (simp add: sync_rejects_duplicate_names[OF False])
    with False chk show ?thesis by (simp add: Let_def)
  next
    case True
    note passed = sync_calls_passed[OF True, of qdb db, unfolded Let_def pts]
    show ?thesis
    proof (cases "sync_course_tags db ?pts (courseId ci)")
      case (Inl msg)
      with passed True chk show ?thesis by (simp add: Let_def)
    next
      case (Inr ids)
      have after: "calls (sync ci qdb db) =
          (if length ids \<le> length ?rts \<and> ?ok ids then [?call1, Call_sync_question_tags (?payload ids)]
           else [?call1])"
      proof (cases "length ids \<le> length ?rts")
        case False
        then have "tagIdsByName ?pts ids = Inl TypeError"
          by (intro tagIdsByName_TypeError) simp
        with passed Inr False show ?thesis by simp
      next
        case le: True
        then have le': "length ids \<le> length ?pts" by simp
        from tagIdsByName_ok[OF le'] obtain m where m: "tagIdsByName ?pts ids = Inr m" by blast
        have look: "m k = (if k = ''__proto__'' then None
                           else map_of (rev (zip (map name ?rts) ids)) k)" for k
          using tagIdsByName_lookup[OF le' m, of k] by (simp add: comp_def)
        have d: "dom (map_of (rev (zip (map name ?rts) ids))) = set (take (length ids) (map name ?rts))"
          using le by (intro dom_zip_table) simp
        show ?thesis
        proof (cases "?ok ids")
          case True
          then have "\<forall>(qid, q) \<in> set qdb.
                        distinct (tags_or_empty (question_tags q)) \<and>
                        set (tags_or_empty (question_tags q)) \<inter> set object_prototype_keys = {} \<and>
                        set (tags_or_empty (question_tags q)) \<subseteq> dom (map_of (rev (zip (map name ?rts) ids)))"
            unfolding d .
          from paramQuestionTags_explicit_ok[of m, OF look this]
          have "paramQuestionTags m qdb = Inr (?payload ids)" .
          with passed Inr m le True show ?thesis by simp
        next
          case False
          then have "\<not> (\<forall>(qid, q) \<in> set qdb.
                        distinct (tags_or_empty (question_tags q)) \<and>
                        set (tags_or_empty (question_tags q)) \<inter> set object_prototype_keys = {} \<and>
                        set (tags_or_empty (question_tags q)) \<subseteq> dom (map_of (rev (zip (map name ?rts) ids))))"
            unfolding d .
          from paramQuestionTags_explicit_fail[of m, OF look this]
          obtain err where "paramQuestionTags m qdb = Inl err" by blast
          with passed Inr m False show ?thesis by simp
        qed
      qed
      from after Inr True chk show ?thesis by (simp add: Let_def)
    qed
  qed
qed


lemma map_get_fun: "map_get m = (\<lambda>k. case m k of Some v \<Rightarrow> Own v | None \<Rightarrow> Undefined)"
  by (rule ext) (simp add: map_get_def)

lemma syncNew_run_explicit:
  assumes "\<not> hasErrors (course cd) \<longrightarrow> data (course cd) \<noteq> None"
    and "\<forall>(qid, q) \<in> set (questions cd). \<not> hasErrors q \<longrightarrow> data q \<noteq> None"
  shows "syncNew cid cd qids db =
    (let cts = (if hasErrors (course cd) then []
                else case data (course cd) of
                       None \<Rightarrow> []
                     | Some d \<Rightarrow> map (\<lambda>t. (name t, description t, color t)) (course_tags d));
         names = rev (remdups (rev (concat (map (\<lambda>(qid, q). referenced_names q)
                                              (error_free (questions cd))))));
         call1 = Call_sync_course_tags_new (\<not> hasErrors (course cd)) cts names cid
     in case sync_course_tags_new db (\<not> hasErrors (course cd)) cts names cid of
          Inl msg \<Rightarrow> \<lparr>new_calls = [call1], new_result = Inl (SqlError msg)\<rparr>
        | Inr newTags \<Rightarrow>
            (let qtp = map (\<lambda>(qid, q). (js_get qids qid,
                              map (\<lambda>t. case map_of (rev newTags) t of
                                          Some i \<Rightarrow> Own i | None \<Rightarrow> Undefined)
                                (rev (remdups (rev (referenced_names q))))))
                         (error_free (questions cd))
             in \<lparr>new_calls = [call1, Call_sync_question_tags_new qtp],
                 new_result = (case sync_question_tags_new db qtp of
                                 Inl msg \<Rightarrow> Inl (SqlError msg)
                               | Inr u \<Rightarrow> Inr ())\<rparr>))"
proof -
  let ?cts = "if hasErrors (course cd) then []
                else case data (course cd) of
                       None \<Rightarrow> []
                     | Some d \<Rightarrow> map (\<lambda>t. (name t, description t, color t)) (course_tags d)"
  have ct: "courseTags cd = Inr ?cts"
    using assms(1) by (auto simp: courseTags_def split: option.splits)
  have u: "(case r of Inl msg \<Rightarrow> Inl (SqlError msg) | Inr v \<Rightarrow> Inr ()) = propagate r"
    for r :: "string + unit"
    by (simp add: propagate_def split: sum.splits)
  show ?thesis
    unfolding syncNew_run[OF ct assms(2)] foldl_set_add_remdups tagIdsByName_new_map_of map_get_fun u
      Let_def ..
qed

section \<open>syncNew when the course file has errors\<close>

text \<open>
  C5. When the course configuration has errors (and every question that loaded without
  error has its data), \<^verbatim>\<open>syncNew\<close> first calls \<^verbatim>\<open>sync_course_tags_new\<close> with
  \<^verbatim>\<open>false\<close>, the empty list of declared tags, the tag names referenced by the error-free
  questions (each once, in order of first reference) and the course id; a second call, if
  made, carries one association per error-free question; and a question that has errors
  contributes nothing: any other course data with the same course file and the same
  error-free questions gives the same calls and the same result.
\<close>

theorem syncNew_course_with_errors:
  assumes "hasErrors (course cd)"
    and "\<forall>(qid, q) \<in> set (questions cd). \<not> hasErrors q \<longrightarrow> data q \<noteq> None"
  shows "(\<exists>rest. new_calls (syncNew cid cd qids db) =
            Call_sync_course_tags_new False []
              (foldl set_add [] (concat (map (\<lambda>(qid, q). referenced_names q) (error_free (questions cd)))))
              cid # rest \<and>
            (\<forall>qtp. Call_sync_question_tags_new qtp \<in> set rest \<longrightarrow>
               (\<exists>newTags. qtp =
                  map (\<lambda>(qid, q). (js_get qids qid,
                         map (map_get (tagIdsByName_new newTags)) (foldl set_add [] (referenced_names q))))
                    (error_free (questions cd))))) \<and>
         (\<forall>cd'. course cd' = course cd \<and> error_free (questions cd') = error_free (questions cd) \<longrightarrow>
            syncNew cid cd' qids db = syncNew cid cd qids db)"
proof -
  have ct: "courseTags cd = Inr []" using assms(1) by (simp add: courseTags_def)
  have 1: "\<exists>rest. new_calls (syncNew cid cd qids db) =
            Call_sync_course_tags_new False []
              (foldl set_add [] (concat (map (\<lambda>(qid, q). referenced_names q) (error_free (questions cd)))))
              cid # rest \<and>
            (\<forall>qtp. Call_sync_question_tags_new qtp \<in> set rest \<longrightarrow>
               (\<exists>newTags. qtp =
                  map (\<lambda>(qid, q). (js_get qids qid,
                         map (map_get (tagIdsByName_new newTags)) (foldl set_add [] (referenced_names q))))
                    (error_free (questions cd))))"
    unfolding syncNew_run[OF ct assms(2)] Let_def using assms(1)
    by (auto split: sum.splits)
  have 2: "syncNew cid cd' qids db = syncNew cid cd qids db"
    if "course cd' = course cd" "error_free (questions cd') = error_free (questions cd)" for cd'
  proof -
    have "cd'\<lparr>questions := error_free (questions cd')\<rparr> = cd\<lparr>questions := error_free (questions cd)\<rparr>"
      using that by simp
    with syncNew_error_free[of cid cd' qids db] syncNew_error_free[of cid cd qids db]
    show ?thesis by simp
  qed
  from 1 2 show ?thesis by blast
qed

text \<open>The end-to-end example of the specification: one valid question referencing
  \<^verbatim>\<open>t1\<close>, one invalid question.\<close>

theorem syncNew_course_with_errors_witness:
  "hasErrors (course \<lparr>course = \<lparr>hasErrors = True, data = None\<rparr>,
       questions = [(''q1'', \<lparr>hasErrors = False, data = Some \<lparr>data_tags = Some [''t1'']\<rparr>\<rparr>),
                    (''q2'', \<lparr>hasErrors = True, data = None\<rparr>)]\<rparr>) \<and>
   new_calls (syncNew (7::nat)
      \<lparr>course = \<lparr>hasErrors = True, data = None\<rparr>,
       questions = [(''q1'', \<lparr>hasErrors = False, data = Some \<lparr>data_tags = Some [''t1'']\<rparr>\<rparr>),
                    (''q2'', \<lparr>hasErrors = True, data = None\<rparr>)]\<rparr>
      [''q1'' \<mapsto> 1, ''q2'' \<mapsto> 2] numbering_new_db)
     = [Call_sync_course_tags_new False [] [''t1''] 7,
        Call_sync_question_tags_new [(Own 1, [Own 0])]]"
proof -
  let ?cd = "\<lparr>course = \<lparr>hasErrors = True, data = None\<rparr>,
       questions = [(''q1'', \<lparr>hasErrors = False, data = Some \<lparr>data_tags = Some [''t1'']\<rparr>\<rparr>),
                    (''q2'', \<lparr>hasErrors = True, data = None\<rparr>)]\<rparr>"
  have h1: "hasErrors (course ?cd)" by simp
  have h2: "\<forall>(qid, q) \<in> set (questions ?cd). \<not> hasErrors q \<longrightarrow> data q \<noteq> None" by simp
  have names: "foldl set_add [] (concat (map (\<lambda>(qid, q). referenced_names q) (error_free (questions ?cd))))
      = [''t1'']"
    by (simp add: error_free_def referenced_names_def tags_or_empty_def set_add_def)
  from syncNew_course_with_errors[OF h1 h2, of "7::nat" "[''q1'' \<mapsto> 1, ''q2'' \<mapsto> 2]" numbering_new_db]
  obtain rest where
    "new_calls (syncNew (7::nat) ?cd [''q1'' \<mapsto> 1, ''q2'' \<mapsto> 2] numbering_new_db) =
       Call_sync_course_tags_new False [] [''t1''] 7 # rest"
    unfolding names by blast
  moreover have "new_calls (syncNew (7::nat) ?cd [''q1'' \<mapsto> 1, ''q2'' \<mapsto> 2] numbering_new_db)
     = [Call_sync_course_tags_new False [] [''t1''] 7,
        Call_sync_question_tags_new [(Own 1, [Own 0])]]"
    by (simp add: syncNew_def courseTags_def tags_or_empty_def set_add_def numbering_new_db_def
        propagate_def tagIdsByName_new_def question_entry_def js_get_def map_get_def Let_def)
  ultimately show ?thesis using h1 by simp
qed

section \<open>syncNew validates nothing\<close>

text \<open>
  C10. \<^verbatim>\<open>syncNew\<close> never raises a configuration error: whatever the course data, the
  question ids and the database, a failure of the run is a rejection by the database or a
  \<^verbatim>\<open>TypeError\<close>, never one of the three errors of \<^verbatim>\<open>sync\<close>. With a course file that
  loaded (and data on every error-free item) the run is fully determined by the two
  procedure calls: all declared tags are sent as they are, repeated names included; every
  error-free question is encoded with its distinct tag names looked up in the returned
  table, a name without an id as \<^verbatim>\<open>undefined\<close>; and the result is the answer of the second
  procedure.
\<close>

theorem syncNew_validates_nothing:
  "(\<forall>e. new_result (syncNew cid cd qids db) = Inl e \<longrightarrow> \<not> is_configuration_error e) \<and>
   (\<forall>d. \<not> hasErrors (course cd) \<and> data (course cd) = Some d \<and>
        (\<forall>(qid, q) \<in> set (questions cd). \<not> hasErrors q \<longrightarrow> data q \<noteq> None) \<longrightarrow>
      syncNew cid cd qids db =
        (let cts = map (\<lambda>t. (name t, description t, color t)) (course_tags d);
             names = foldl set_add []
                       (concat (map (\<lambda>(qid, q). referenced_names q) (error_free (questions cd))));
             call1 = Call_sync_course_tags_new True cts names cid
         in case sync_course_tags_new db True cts names cid of
              Inl msg \<Rightarrow> \<lparr>new_calls = [call1], new_result = Inl (SqlError msg)\<rparr>
            | Inr newTags \<Rightarrow>
                (let qtp = map (\<lambda>(qid, q). (js_get qids qid,
                                  map (map_get (tagIdsByName_new newTags))
                                    (foldl set_add [] (referenced_names q))))
                             (error_free (questions cd))
                 in \<lparr>new_calls = [call1, Call_sync_question_tags_new qtp],
                     new_result = propagate (sync_question_tags_new db qtp)\<rparr>)))"
proof -
  have 1: "\<not> is_configuration_error e" if "new_result (syncNew cid cd qids db) = Inl e" for e
    using syncNew_no_configuration_error[OF that] by auto
  have 2: "syncNew cid cd qids db =
        (let cts = map (\<lambda>t. (name t, description t, color t)) (course_tags d);
             names = foldl set_add []
                       (concat (map (\<lambda>(qid, q). referenced_names q) (error_free (questions cd))));
             call1 = Call_sync_course_tags_new True cts names cid
         in case sync_course_tags_new db True cts names cid of
              Inl msg \<Rightarrow> \<lparr>new_calls = [call1], new_result = Inl (SqlError msg)\<rparr>
            | Inr newTags \<Rightarrow>
                (let qtp = map (\<lambda>(qid, q). (js_get qids qid,
                                  map (map_get (tagIdsByName_new newTags))
                                    (foldl set_add [] (referenced_names q))))
                             (error_free (questions cd))
                 in \<lparr>new_calls = [call1, Call_sync_question_tags_new qtp],
                     new_result = propagate (sync_question_tags_new db qtp)\<rparr>))"
    if h: "\<not> hasErrors (course cd)" "data (course cd) = Some d"
      "\<forall>(qid, q) \<in> set (questions cd). \<not> hasErrors q \<longrightarrow> data q \<noteq> None" for d
  proof -
    have ct: "courseTags cd = Inr (map (\<lambda>t. (name t, description t, color t)) (course_tags d))"
      using h(1,2) by (simp add: courseTags_def)
    show ?thesis unfolding syncNew_run[OF ct h(3)] using h(1) by (simp add: Let_def)
  qed
  from 1 2 show ?thesis by blast
qed

text \<open>Two declared tags with the same name, a question that repeats a tag, and a database
  that returns no id at all: both calls are made and the run succeeds.\<close>

theorem syncNew_validates_nothing_witness:
  "new_calls (syncNew (7::nat)
      \<lparr>course = \<lparr>hasErrors = False,
                  data = Some \<lparr>course_tags = [\<lparr>name = ''a'', color = ''red1'', description = ''one''\<rparr>,
                                               \<lparr>name = ''a'', color = ''red2'', description = ''two''\<rparr>]\<rparr>\<rparr>,
       questions = [(''q1'', \<lparr>hasErrors = False, data = Some \<lparr>data_tags = Some [''x'', ''x'', ''zz'']\<rparr>\<rparr>)]\<rparr>
      [''q1'' \<mapsto> 1] forgetful_new_db)
     = [Call_sync_course_tags_new True [(''a'', ''one'', ''red1''), (''a'', ''two'', ''red2'')] [''x'', ''zz''] 7,
        Call_sync_question_tags_new [(Own 1, [Undefined, Undefined])]] \<and>
   new_result (syncNew (7::nat)
      \<lparr>course = \<lparr>hasErrors = False,
                  data = Some \<lparr>course_tags = [\<lparr>name = ''a'', color = ''red1'', description = ''one''\<rparr>,
                                               \<lparr>name = ''a'', color = ''red2'', description = ''two''\<rparr>]\<rparr>\<rparr>,
       questions = [(''q1'', \<lparr>hasErrors = False, data = Some \<lparr>data_tags = Some [''x'', ''x'', ''zz'']\<rparr>\<rparr>)]\<rparr>
      [''q1'' \<mapsto> 1] forgetful_new_db) = Inr ()"
proof -
  let ?d = "\<lparr>course_tags = [\<lparr>name = ''a'', color = ''red1'', description = ''one''\<rparr>,
                             \<lparr>name = ''a'', color = ''red2'', description = ''two''\<rparr>]\<rparr>"
  let ?cd = "\<lparr>course = \<lparr>hasErrors = False, data = Some ?d\<rparr>,
       questions = [(''q1'', \<lparr>hasErrors = False, data = Some \<lparr>data_tags = Some [''x'', ''x'', ''zz'']\<rparr>\<rparr>)]\<rparr>"
  have h: "\<not> hasErrors (course ?cd) \<and> data (course ?cd) = Some ?d \<and>
        (\<forall>(qid, q) \<in> set (questions ?cd). \<not> hasErrors q \<longrightarrow> data q \<noteq> None)"
    by simp
  from syncNew_validates_nothing[of "7::nat" ?cd "[''q1'' \<mapsto> 1]" forgetful_new_db] h
  have "syncNew (7::nat) ?cd [''q1'' \<mapsto> 1] forgetful_new_db =
        (let cts = map (\<lambda>t. (name t, description t, color t)) (course_tags ?d);
             names = foldl set_add []
                       (concat (map (\<lambda>(qid, q). referenced_names q) (error_free (questions ?cd))));
             call1 = Call_sync_course_tags_new True cts names 7
         in case sync_course_tags_new forgetful_new_db True cts names 7 of
              Inl msg \<Rightarrow> \<lparr>new_calls = [call1], new_result = Inl (SqlError msg)\<rparr>
            | Inr newTags \<Rightarrow>
                (let qtp = map (\<lambda>(qid, q). (js_get [''q1'' \<mapsto> 1] qid,
                                  map (map_get (tagIdsByName_new newTags))
                                    (foldl set_add [] (referenced_names q))))
                             (error_free (questions ?cd))
                 in \<lparr>new_calls = [call1, Call_sync_question_tags_new qtp],
                     new_result = propagate (sync_question_tags_new forgetful_new_db qtp)\<rparr>))"
    by blast
  then show ?thesis
    by (simp add: Let_def forgetful_new_db_def error_free_def referenced_names_def tags_or_empty_def
        set_add_def propagate_def tagIdsByName_new_def js_get_def map_get_def)
qed

section \<open>What the procedure calls carry\<close>

text \<open>
  C7. The claim: in both variants every tag is encoded as the tuple (name, color,
  description), in that order, and every association as (question identifier, tag
  identifiers). \<^verbatim>\<open>syncNew\<close> writes \<^verbatim>\<open>[t.name, t.description, t.color]\<close>: the description
  comes second and the color third.
\<close>

theorem syncNew_tuple_order:
  "new_calls (syncNew (7::nat)
      \<lparr>course = \<lparr>hasErrors = False,
                  data = Some \<lparr>course_tags = [\<lparr>name = ''x'', color = ''blue1'', description = ''d''\<rparr>]\<rparr>\<rparr>,
       questions = []\<rparr>
      Map.empty numbering_new_db)
     = [Call_sync_course_tags_new True [(''x'', ''d'', ''blue1'')] [] 7,
        Call_sync_question_tags_new []] \<and>
   (''x'', ''d'', ''blue1'') \<noteq> (''x'', ''blue1'', ''d'')"
  by (simp add: syncNew_def courseTags_def numbering_new_db_def propagate_def Let_def)

text \<open>
  C7, amended. When the course-level check passes, the legacy \<^verbatim>\<open>sync\<close> calls
  \<^verbatim>\<open>sync_course_tags\<close> with one tuple (name, color, description) per resolved tag, in
  order; when the procedure returns no more ids than tuples and every question's tags are
  distinct, are no names of \<^verbatim>\<open>Object.prototype\<close> and are among the names that received an
  id, it then calls \<^verbatim>\<open>sync_question_tags\<close> with one pair per question: the question's
  \<^verbatim>\<open>id\<close> and, for its tags in order, the id returned for the last tuple of that name;
  otherwise the run stops after the first call. When the items that loaded have their data,
  \<^verbatim>\<open>syncNew\<close> calls \<^verbatim>\<open>sync_course_tags_new\<close> with one tuple (name, description, color)
  per declared tag (none when the course file has errors), and when the procedure answers
  it calls \<^verbatim>\<open>sync_question_tags_new\<close> with one pair per error-free question:
  \<^verbatim>\<open>questionIds[qid]\<close> and, for the question's distinct tag names in order of first
  occurrence, the id of the last returned pair of that name, or \<^verbatim>\<open>undefined\<close>.
\<close>

theorem parameter_encoding:
  "calls (sync ci qdb db) =
    (let ts = (case tags ci of None \<Rightarrow> [] | Some xs \<Rightarrow> xs);
         rts = resolved_tags ts qdb;
         pts = map (\<lambda>t. (name t, color t, description t)) rts;
         call1 = Call_sync_course_tags pts (courseId ci)
     in if \<not> (distinct (map name ts) \<and> name ` set ts \<inter> set object_prototype_keys = {}) then []
        else case sync_course_tags db pts (courseId ci) of
               Inl msg \<Rightarrow> [call1]
             | Inr ids \<Rightarrow>
                 if length ids \<le> length rts \<and>
                    (\<forall>(qid, q) \<in> set qdb.
                        distinct (tags_or_empty (question_tags q)) \<and>
                        set (tags_or_empty (question_tags q)) \<inter> set object_prototype_keys = {} \<and>
                        set (tags_or_empty (question_tags q)) \<subseteq> set (take (length ids) (map name rts)))
                 then [call1,
                       Call_sync_question_tags
                         (map (\<lambda>(qid, q). (question_id q,
                                 map (\<lambda>t. case map_of (rev (zip (map name rts) ids)) t of
                                             Some i \<Rightarrow> Own i | None \<Rightarrow> Undefined)
                                   (tags_or_empty (question_tags q)))) qdb)]
                 else [call1]) \<and>
   ((\<not> hasErrors (course cd) \<longrightarrow> data (course cd) \<noteq> None) \<and>
    (\<forall>(qid, q) \<in> set (questions cd). \<not> hasErrors q \<longrightarrow> data q \<noteq> None) \<longrightarrow>
    new_calls (syncNew cid cd qids ndb) =
      (let cts = (if hasErrors (course cd) then []
                  else case data (course cd) of
                         None \<Rightarrow> []
                       | Some d \<Rightarrow> map (\<lambda>t. (name t, description t, color t)) (course_tags d));
           names = rev (remdups (rev (concat (map (\<lambda>(qid, q). referenced_names q)
                                                (error_free (questions cd))))));
           call1 = Call_sync_course_tags_new (\<not> hasErrors (course cd)) cts names cid
       in case sync_course_tags_new ndb (\<not> hasErrors (course cd)) cts names cid of
            Inl msg \<Rightarrow> [call1]
          | Inr newTags \<Rightarrow>
              [call1,
               Call_sync_question_tags_new
                 (map (\<lambda>(qid, q). (js_get qids qid,
                         map (\<lambda>t. case map_of (rev newTags) t of
                                     Some i \<Rightarrow> Own i | None \<Rightarrow> Undefined)
                           (rev (remdups (rev (referenced_names q))))))
                    (error_free (questions cd)))]))"
proof (intro conjI impI)
  show "calls (sync ci qdb db) =
    (let ts = (case tags ci of None \<Rightarrow> [] | Some xs \<Rightarrow> xs);
         rts = resolved_tags ts qdb;
         pts = map (\<lambda>t. (name t, color t, description t)) rts;
         call1 = Call_sync_course_tags pts (courseId ci)
     in if \<not> (distinct (map name ts) \<and> name ` set ts \<inter> set object_prototype_keys = {}) then []
        else case sync_course_tags db pts (courseId ci) of
               Inl msg \<Rightarrow> [call1]
             | Inr ids \<Rightarrow>
                 if length ids \<le> length rts \<and>
                    (\<forall>(qid, q) \<in> set qdb.
                        distinct (tags_or_empty (question_tags q)) \<and>
                        set (tags_or_empty (question_tags q)) \<inter> set object_prototype_keys = {} \<and>
                        set (tags_or_empty (question_tags q)) \<subseteq> set (take (length ids) (map name rts)))
                 then [call1,
                       Call_sync_question_tags
                         (map (\<lambda>(qid, q). (question_id q,
                                 map (\<lambda>t. case map_of (rev (zip (map name rts) ids)) t of
                                             Some i \<Rightarrow> Own i | None \<Rightarrow> Undefined)
                                   (tags_or_empty (question_tags q)))) qdb)]
                 else [call1])"
    by (rule sync_calls_explicit)
next
  assume h: "(\<not> hasErrors (course cd) \<longrightarrow> data (course cd) \<noteq> None) \<and>
    (\<forall>(qid, q) \<in> set (questions cd). \<not> hasErrors q \<longrightarrow> data q \<noteq> None)"
  then have h1: "\<not> hasErrors (course cd) \<longrightarrow> data (course cd) \<noteq> None"
    and h2: "\<forall>(qid, q) \<in> set (questions cd). \<not> hasErrors q \<longrightarrow> data q \<noteq> None" by blast+
  show "new_calls (syncNew cid cd qids ndb) =
      (let cts = (if hasErrors (course cd) then []
                  else case data (course cd) of
                         None \<Rightarrow> []
                       | Some d \<Rightarrow> map (\<lambda>t. (name t, description t, color t)) (course_tags d));
           names = rev (remdups (rev (concat (map (\<lambda>(qid, q). referenced_names q)
                                                (error_free (questions cd))))));
           call1 = Call_sync_course_tags_new (\<not> hasErrors (course cd)) cts names cid
       in case sync_course_tags_new ndb (\<not> hasErrors (course cd)) cts names cid of
            Inl msg \<Rightarrow> [call1]
          | Inr newTags \<Rightarrow>
              [call1,
               Call_sync_question_tags_new
                 (map (\<lambda>(qid, q). (js_get qids qid,
                         map (\<lambda>t. case map_of (rev newTags) t of
                                     Some i \<Rightarrow> Own i | None \<Rightarrow> Undefined)
                           (rev (remdups (rev (referenced_names q))))))
                    (error_free (questions cd)))])"
    unfolding syncNew_run_explicit[OF h1 h2] Let_def by (simp split: sum.splits)
qed

text \<open>One run of each variant, with the tag \<^verbatim>\<open>x\<close> declared and \<^verbatim>\<open>y\<close> only referenced.\<close>

theorem parameter_encoding_witness:
  "calls (sync \<lparr>tags = Some [\<lparr>name = ''x'', color = ''blue1'', description = ''d''\<rparr>], courseId = (7::nat)\<rparr>
            [(''q1'', \<lparr>question_id = (1::nat), question_tags = Some [''x'', ''y'']\<rparr>)] numbering_db)
     = [Call_sync_course_tags
          [(''x'', ''blue1'', ''d''),
           (''y'', ''gray1'',
            ''Auto-generated from use in a question; add this tag to your courseInfo.json file to customize'')] 7,
        Call_sync_question_tags [(1, [Own 0, Own 1])]] \<and>
   new_calls (syncNew (7::nat)
         \<lparr>course = \<lparr>hasErrors = False,
                     data = Some \<lparr>course_tags = [\<lparr>name = ''x'', color = ''blue1'', description = ''d''\<rparr>]\<rparr>\<rparr>,
          questions = [(''q1'', \<lparr>hasErrors = False, data = Some \<lparr>data_tags = Some [''x'', ''y'', ''x'']\<rparr>\<rparr>)]\<rparr>
         [''q1'' \<mapsto> 1] numbering_new_db)
     = [Call_sync_course_tags_new True [(''x'', ''d'', ''blue1'')] [''x'', ''y''] 7,
        Call_sync_question_tags_new [(Own 1, [Own 0, Own 1])]]"
proof -
  let ?ci = "\<lparr>tags = Some [\<lparr>name = ''x'', color = ''blue1'', description = ''d''\<rparr>], courseId = (7::nat)\<rparr>"
  let ?qdb = "[(''q1'', \<lparr>question_id = (1::nat), question_tags = Some [''x'', ''y'']\<rparr>)]"
  let ?cd = "\<lparr>course = \<lparr>hasErrors = False,
                     data = Some \<lparr>course_tags = [\<lparr>name = ''x'', color = ''blue1'', description = ''d''\<rparr>]\<rparr>\<rparr>,
          questions = [(''q1'', \<lparr>hasErrors = False, data = Some \<lparr>data_tags = Some [''x'', ''y'', ''x'']\<rparr>\<rparr>)]\<rparr>"
  note th = parameter_encoding[of ?ci ?qdb numbering_db ?cd 7 "[''q1'' \<mapsto> 1]" numbering_new_db]
  have legacy: "calls (sync ?ci ?qdb numbering_db)
     = [Call_sync_course_tags
          [(''x'', ''blue1'', ''d''),
           (''y'', ''gray1'',
            ''Auto-generated from use in a question; add this tag to your courseInfo.json file to customize'')] 7,
        Call_sync_question_tags [(1, [Own 0, Own 1])]]"
    using th[THEN conjunct1]
    by (auto simp add: Let_def object_prototype_keys_def resolved_tags_def missingTagNames_def
        questionTagNames_def tags_or_empty_def placeholder_def numbering_db_def)
  have loaded: "(\<not> hasErrors (course ?cd) \<longrightarrow> data (course ?cd) \<noteq> None) \<and>
    (\<forall>(qid, q) \<in> set (questions ?cd). \<not> hasErrors q \<longrightarrow> data q \<noteq> None)" by simp
  have new: "new_calls (syncNew (7::nat) ?cd [''q1'' \<mapsto> 1] numbering_new_db)
     = [Call_sync_course_tags_new True [(''x'', ''d'', ''blue1'')] [''x'', ''y''] 7,
        Call_sync_question_tags_new [(Own 1, [Own 0, Own 1])]]"
    using th[THEN conjunct2, rule_format, OF loaded]
    by (simp add: Let_def error_free_def referenced_names_def tags_or_empty_def set_add_def
        numbering_new_db_def js_get_def)
  from legacy new show ?thesis by blast
qed

section \<open>The name-to-id table and the names the questions reference\<close>

text \<open>
  C1. The claim: in \<^verbatim>\<open>sync\<close> and in \<^verbatim>\<open>syncNew\<close> the table built from the first
  procedure call has an entry for every tag name referenced by a question of the run, or
  the run fails; an association is never encoded for a name absent from the table.
  \<^verbatim>\<open>syncNew\<close> has no such check: when the procedure returns no pair for \<^verbatim>\<open>t1\<close>, the
  question that references \<^verbatim>\<open>t1\<close> is encoded with \<^verbatim>\<open>undefined\<close> in the place of the id,
  the second procedure is called and the run succeeds.
\<close>

theorem syncNew_encodes_unknown_name:
  "tagIdsByName_new ([] :: (string \<times> nat) list) ''t1'' = None \<and>
   syncNew (7::nat)
      \<lparr>course = \<lparr>hasErrors = True, data = None\<rparr>,
       questions = [(''q1'', \<lparr>hasErrors = False, data = Some \<lparr>data_tags = Some [''t1'']\<rparr>\<rparr>)]\<rparr>
      [''q1'' \<mapsto> (1::nat)] forgetful_new_db
     = \<lparr>new_calls = [Call_sync_course_tags_new False [] [''t1''] 7,
                      Call_sync_question_tags_new [(Own 1, [Undefined])]],
        new_result = Inr ()\<rparr>"
  by (simp add: syncNew_def courseTags_def tags_or_empty_def set_add_def forgetful_new_db_def
      propagate_def tagIdsByName_new_def question_entry_def js_get_def map_get_def Let_def)

text \<open>
  C1, amended. A legacy \<^verbatim>\<open>sync\<close> that does not fail has received the ids of the first
  procedure call and built from them a table with an entry for every tag name referenced
  by any question. \<^verbatim>\<open>syncNew\<close> does not check the names: once the first procedure has
  answered (and the items that loaded have their data), every error-free question is
  encoded, a name that the returned pairs do not contain as \<^verbatim>\<open>undefined\<close>, and the outcome
  of the run is that of the second procedure call.
\<close>

theorem name_to_id_table:
  "(result (sync ci qdb db) = Inr () \<longrightarrow>
      (\<exists>ids m.
         sync_course_tags db
           (paramTags (resolved_tags (case tags ci of None \<Rightarrow> [] | Some xs \<Rightarrow> xs) qdb)) (courseId ci) = Inr ids \<and>
         tagIdsByName
           (paramTags (resolved_tags (case tags ci of None \<Rightarrow> [] | Some xs \<Rightarrow> xs) qdb)) ids = Inr m \<and>
         (\<forall>t \<in> set (questionTagNames qdb). m t \<noteq> None))) \<and>
   (\<forall>cts newTags.
      courseTags cd = Inr cts \<and>
      (\<forall>(qid, q) \<in> set (questions cd). \<not> hasErrors q \<longrightarrow> data q \<noteq> None) \<and>
      sync_course_tags_new ndb (\<not> hasErrors (course cd)) cts
        (foldl set_add [] (concat (map (\<lambda>(qid, q). referenced_names q) (error_free (questions cd))))) cid
        = Inr newTags \<longrightarrow>
      new_result (syncNew cid cd qids ndb) =
        propagate (sync_question_tags_new ndb
          (map (\<lambda>(qid, q). (js_get qids qid,
                  map (\<lambda>t. if t \<in> fst ` set newTags then map_get (tagIdsByName_new newTags) t else Undefined)
                    (foldl set_add [] (referenced_names q))))
             (error_free (questions cd)))))"
proof -
  have 1: "\<exists>ids m.
         sync_course_tags db
           (paramTags (resolved_tags (case tags ci of None \<Rightarrow> [] | Some xs \<Rightarrow> xs) qdb)) (courseId ci) = Inr ids \<and>
         tagIdsByName
           (paramTags (resolved_tags (case tags ci of None \<Rightarrow> [] | Some xs \<Rightarrow> xs) qdb)) ids = Inr m \<and>
         (\<forall>t \<in> set (questionTagNames qdb). m t \<noteq> None)"
    if "result (sync ci qdb db) = Inr ()"
    using sync_success_names_resolved[OF that] .
  have und: "(\<lambda>t. if t \<in> fst ` set newTags then map_get (tagIdsByName_new newTags) t else Undefined)
      = map_get (tagIdsByName_new newTags)" for newTags :: "(string \<times> 'd) list"
  proof (rule ext)
    fix t
    show "(if t \<in> fst ` set newTags then map_get (tagIdsByName_new newTags) t else Undefined)
        = map_get (tagIdsByName_new newTags) t"
      using map_get_Undefined[of "tagIdsByName_new newTags" t]
      by (cases "t \<in> fst ` set newTags") (simp_all add: dom_tagIdsByName_new)
  qed
  have 2: "new_result (syncNew cid cd qids ndb) =
        propagate (sync_question_tags_new ndb
          (map (\<lambda>(qid, q). (js_get qids qid,
                  map (\<lambda>t. if t \<in> fst ` set newTags then map_get (tagIdsByName_new newTags) t else Undefined)
                    (foldl set_add [] (referenced_names q))))
             (error_free (questions cd))))"
    if h: "courseTags cd = Inr cts"
      "\<forall>(qid, q) \<in> set (questions cd). \<not> hasErrors q \<longrightarrow> data q \<noteq> None"
      "sync_course_tags_new ndb (\<not> hasErrors (course cd)) cts
        (foldl set_add [] (concat (map (\<lambda>(qid, q). referenced_names q) (error_free (questions cd))))) cid
        = Inr newTags" for cts newTags
    unfolding syncNew_run[OF h(1,2)] und using h(3) by (simp add: Let_def)
  from 1 2 show ?thesis by blast
qed

text \<open>A legacy run that succeeds, with \<^verbatim>\<open>x\<close> declared and \<^verbatim>\<open>y\<close> only referenced, and
  the run of \<^verbatim>\<open>syncNew\<close> above.\<close>

theorem name_to_id_table_witness:
  "result (sync \<lparr>tags = Some [\<lparr>name = ''x'', color = ''blue1'', description = ''d''\<rparr>], courseId = (7::nat)\<rparr>
             [(''q1'', \<lparr>question_id = (1::nat), question_tags = Some [''x'', ''y'']\<rparr>)] numbering_db)
     = Inr () \<and>
   (\<exists>ids m.
      sync_course_tags numbering_db
        (paramTags (resolved_tags [\<lparr>name = ''x'', color = ''blue1'', description = ''d''\<rparr>]
           [(''q1'', \<lparr>question_id = (1::nat), question_tags = Some [''x'', ''y'']\<rparr>)])) 7 = Inr ids \<and>
      tagIdsByName
        (paramTags (resolved_tags [\<lparr>name = ''x'', color = ''blue1'', description = ''d''\<rparr>]
           [(''q1'', \<lparr>question_id = (1::nat), question_tags = Some [''x'', ''y'']\<rparr>)])) ids = Inr m \<and>
      m ''x'' \<noteq> None \<and> m ''y'' \<noteq> None) \<and>
   new_result (syncNew (7::nat)
      \<lparr>course = \<lparr>hasErrors = True, data = None\<rparr>,
       questions = [(''q1'', \<lparr>hasErrors = False, data = Some \<lparr>data_tags = Some [''t1'']\<rparr>\<rparr>)]\<rparr>
      [''q1'' \<mapsto> (1::nat)] forgetful_new_db) = Inr ()"
proof -
  let ?x = "\<lparr>name = ''x'', color = ''blue1'', description = ''d''\<rparr>"
  let ?ci = "\<lparr>tags = Some [?x], courseId = (7::nat)\<rparr>"
  let ?qdb = "[(''q1'', \<lparr>question_id = (1::nat), question_tags = Some [''x'', ''y'']\<rparr>)]"
  let ?cd = "\<lparr>course = \<lparr>hasErrors = True, data = None\<rparr>,
       questions = [(''q1'', \<lparr>hasErrors = False, data = Some \<lparr>data_tags = Some [''t1'']\<rparr>\<rparr>)]\<rparr>"
  let ?qids = "[''q1'' \<mapsto> (1::nat)]"
  note th = name_to_id_table[of ?ci ?qdb numbering_db ?cd forgetful_new_db 7 ?qids]
  have r: "result (sync ?ci ?qdb numbering_db) = Inr ()"
    by (simp add: sync_def getDuplicatesByKey_def getDuplicates_def js_get_def js_put_def js_in_def
        object_prototype_keys_def resolved_tags_def missingTagNames_def questionTagNames_def
        tags_or_empty_def placeholder_def paramTags_def numbering_db_def propagate_def
        tagIdsByName_def question_step_def Let_def)
  have names: "questionTagNames ?qdb = [''x'', ''y'']"
    by (simp add: questionTagNames_def tags_or_empty_def)
  from th r obtain ids m where
    "sync_course_tags numbering_db (paramTags (resolved_tags [?x] ?qdb)) 7 = Inr ids"
    "tagIdsByName (paramTags (resolved_tags [?x] ?qdb)) ids = Inr m"
    "\<forall>t \<in> set (questionTagNames ?qdb). m t \<noteq> None"
    by auto
  then have legacy: "\<exists>ids m.
      sync_course_tags numbering_db (paramTags (resolved_tags [?x] ?qdb)) 7 = Inr ids \<and>
      tagIdsByName (paramTags (resolved_tags [?x] ?qdb)) ids = Inr m \<and>
      m ''x'' \<noteq> None \<and> m ''y'' \<noteq> None"
    unfolding names by auto
  have new: "new_result (syncNew (7::nat) ?cd ?qids forgetful_new_db) = Inr ()"
    by (simp add: syncNew_def courseTags_def tags_or_empty_def set_add_def forgetful_new_db_def
        propagate_def tagIdsByName_new_def question_entry_def js_get_def map_get_def Let_def)
  from r legacy new show ?thesis by blast
qed

section \<open>A question that repeats a tag\<close>

lemma count_list_pos: "0 < count_list xs x \<longleftrightarrow> x \<in> set xs"
  using count_list_0_iff[of xs x] by auto

lemma repeats_after_iff:
  "x \<in> set (repeats_after earlier arr) \<longleftrightarrow>
     x \<in> set arr \<and> (x \<in> set earlier \<or> 1 < count_list arr x)"
  by (induction arr arbitrary: earlier) (auto simp: count_list_pos)

lemma repeats_iff: "x \<in> set (repeats arr) \<longleftrightarrow> 1 < count_list arr x"
  using repeats_after_iff[of x "[]" arr] count_list_pos[of arr x] by (auto simp: repeats_def)

text \<open>
  C4. The claim: for every question whose tag list repeats a name, the legacy \<^verbatim>\<open>sync\<close>
  fails with an error naming that question and the duplicated names, while \<^verbatim>\<open>syncNew\<close>
  raises no error and encodes one tag id per distinct name. The legacy loop throws at the
  first question that fails a check: of two questions that both repeat a tag, only the first
  is named.
\<close>

theorem sync_names_first_offender_only:
  "result (sync \<lparr>tags = Some [], courseId = (7::nat)\<rparr>
     [(''q1'', \<lparr>question_id = (1::nat), question_tags = Some [''x'', ''x'']\<rparr>),
      (''q2'', \<lparr>question_id = 2, question_tags = Some [''y'', ''y'']\<rparr>)] numbering_db)
   = Inl (DuplicateTags ''q1'' [''x''])"
  by (simp add: sync_def getDuplicatesByKey_def getDuplicates_def js_get_def js_put_def js_in_def
        object_prototype_keys_def resolved_tags_def missingTagNames_def questionTagNames_def
        tags_or_empty_def placeholder_def paramTags_def numbering_db_def propagate_def
        tagIdsByName_def question_step_def Let_def)

text \<open>
  C4, amended. Let a question's tag list repeat a name. The legacy \<^verbatim>\<open>sync\<close> then fails
  on every input that holds the question; and when nothing fails before the question's
  duplicate check (the course-level check passes, the first procedure answers, the table is
  built, the questions enumerated before it pass, and all its tags are in the table) the
  error names the question and lists \<^verbatim>\<open>getDuplicates\<close> of its tags, which is not empty
  and contains every name that occurs more than once. \<^verbatim>\<open>syncNew\<close> never raises a
  configuration error; when the items that loaded have their data and the first procedure
  answers, it makes the second call, the outcome of the run is that of this call, and the
  association sent for the question, if the question has no errors, holds for each distinct
  tag name, in order of first occurrence, the id of the last returned pair of that name, or
  \<^verbatim>\<open>undefined\<close>: one entry per distinct name.
\<close>

theorem repeated_question_tag:
  assumes "\<not> distinct ts"
  shows
  "(\<forall>qid q. (qid, q) \<in> set qdb \<and> tags_or_empty (question_tags q) = ts \<longrightarrow>
      (\<exists>e. result (sync ci qdb db) = Inl e)) \<and>
   (\<forall>qid q before rest ids m ps.
      qdb = before @ (qid, q) # rest \<and> tags_or_empty (question_tags q) = ts \<and>
      getDuplicatesByKey (case tags ci of None \<Rightarrow> [] | Some xs \<Rightarrow> xs) name = [] \<and>
      sync_course_tags db
        (paramTags (resolved_tags (case tags ci of None \<Rightarrow> [] | Some xs \<Rightarrow> xs) qdb)) (courseId ci) = Inr ids \<and>
      tagIdsByName
        (paramTags (resolved_tags (case tags ci of None \<Rightarrow> [] | Some xs \<Rightarrow> xs) qdb)) ids = Inr m \<and>
      paramQuestionTags m before = Inr ps \<and>
      (\<forall>t \<in> set ts. js_in t m) \<longrightarrow>
      result (sync ci qdb db) = Inl (DuplicateTags qid (getDuplicates ts))) \<and>
   getDuplicates ts \<noteq> [] \<and> set (repeats ts) \<subseteq> set (getDuplicates ts) \<and>
   (\<forall>x \<in> set ts. 1 < count_list ts x \<longrightarrow> x \<in> set (repeats ts)) \<and>
   (\<forall>e. new_result (syncNew cid cd qids ndb) = Inl e \<longrightarrow> \<not> is_configuration_error e) \<and>
   (\<forall>qid q newTags.
      (qid, q) \<in> set (questions cd) \<and> \<not> hasErrors q \<and> referenced_names q = ts \<and>
      (\<not> hasErrors (course cd) \<longrightarrow> data (course cd) \<noteq> None) \<and>
      (\<forall>(qid', q') \<in> set (questions cd). \<not> hasErrors q' \<longrightarrow> data q' \<noteq> None) \<and>
      sync_course_tags_new ndb (\<not> hasErrors (course cd))
        (if hasErrors (course cd) then []
         else case data (course cd) of
                None \<Rightarrow> []
              | Some d \<Rightarrow> map (\<lambda>t. (name t, description t, color t)) (course_tags d))
        (rev (remdups (rev (concat (map (\<lambda>(qid', q'). referenced_names q') (error_free (questions cd)))))))
        cid = Inr newTags \<longrightarrow>
      (\<exists>call1 qtp.
         qtp = map (\<lambda>(qid', q'). (js_get qids qid',
                      map (\<lambda>t. case map_of (rev newTags) t of Some i \<Rightarrow> Own i | None \<Rightarrow> Undefined)
                        (rev (remdups (rev (referenced_names q'))))))
                 (error_free (questions cd)) \<and>
         new_calls (syncNew cid cd qids ndb) = [call1, Call_sync_question_tags_new qtp] \<and>
         new_result (syncNew cid cd qids ndb) =
           (case sync_question_tags_new ndb qtp of Inl msg \<Rightarrow> Inl (SqlError msg) | Inr u \<Rightarrow> Inr ()) \<and>
         (js_get qids qid,
          map (\<lambda>t. case map_of (rev newTags) t of Some i \<Rightarrow> Own i | None \<Rightarrow> Undefined)
            (foldl set_add [] ts)) \<in> set qtp)) \<and>
   foldl set_add [] ts = rev (remdups (rev ts)) \<and>
   distinct (foldl set_add [] ts) \<and> set (foldl set_add [] ts) = set ts \<and>
   length (foldl set_add [] ts) = card (set ts)"
proof -
  have a: "\<exists>e. result (sync ci qdb db) = Inl e"
    if "(qid, q) \<in> set qdb" "tags_or_empty (question_tags q) = ts" for qid q
    using sync_fails_on_repeated_question_tag[OF that(1)] assms that(2) by simp
  have b: "result (sync ci qdb db) = Inl (DuplicateTags qid (getDuplicates ts))"
    if h: "qdb = before @ (qid, q) # rest" "tags_or_empty (question_tags q) = ts"
      "getDuplicatesByKey (case tags ci of None \<Rightarrow> [] | Some xs \<Rightarrow> xs) name = []"
      "sync_course_tags db
        (paramTags (resolved_tags (case tags ci of None \<Rightarrow> [] | Some xs \<Rightarrow> xs) qdb)) (courseId ci) = Inr ids"
      "tagIdsByName
        (paramTags (resolved_tags (case tags ci of None \<Rightarrow> [] | Some xs \<Rightarrow> xs) qdb)) ids = Inr m"
      "paramQuestionTags m before = Inr ps"
      "\<forall>t \<in> set ts. js_in t m" for qid q before rest ids m ps
    using sync_names_question[of ci db before qid q rest ids m ps] h assms by simp
  have c: "getDuplicates ts \<noteq> []" using assms by (simp add: getDuplicates_empty_iff)
  have d: "x \<in> set (repeats ts)" if "x \<in> set ts" "1 < count_list ts x" for x
    using that by (simp add: repeats_iff)
  have e: "\<not> is_configuration_error e" if "new_result (syncNew cid cd qids ndb) = Inl e" for e
    using syncNew_no_configuration_error[OF that] by auto
  have f: "\<exists>call1 qtp.
         qtp = map (\<lambda>(qid', q'). (js_get qids qid',
                      map (\<lambda>t. case map_of (rev newTags) t of Some i \<Rightarrow> Own i | None \<Rightarrow> Undefined)
                        (rev (remdups (rev (referenced_names q'))))))
                 (error_free (questions cd)) \<and>
         new_calls (syncNew cid cd qids ndb) = [call1, Call_sync_question_tags_new qtp] \<and>
         new_result (syncNew cid cd qids ndb) =
           (case sync_question_tags_new ndb qtp of Inl msg \<Rightarrow> Inl (SqlError msg) | Inr u \<Rightarrow> Inr ()) \<and>
         (js_get qids qid,
          map (\<lambda>t. case map_of (rev newTags) t of Some i \<Rightarrow> Own i | None \<Rightarrow> Undefined)
            (foldl set_add [] ts)) \<in> set qtp"
    if h: "(qid, q) \<in> set (questions cd)" "\<not> hasErrors q" "referenced_names q = ts"
      "\<not> hasErrors (course cd) \<longrightarrow> data (course cd) \<noteq> None"
      "\<forall>(qid', q') \<in> set (questions cd). \<not> hasErrors q' \<longrightarrow> data q' \<noteq> None"
      "sync_course_tags_new ndb (\<not> hasErrors (course cd))
        (if hasErrors (course cd) then []
         else case data (course cd) of
                None \<Rightarrow> []
              | Some d \<Rightarrow> map (\<lambda>t. (name t, description t, color t)) (course_tags d))
        (rev (remdups (rev (concat (map (\<lambda>(qid', q'). referenced_names q') (error_free (questions cd)))))))
        cid = Inr newTags" for qid q newTags
  proof -
    let ?F = "\<lambda>(qid', q'). (js_get qids qid',
                      map (\<lambda>t. case map_of (rev newTags) t of Some i \<Rightarrow> Own i | None \<Rightarrow> Undefined)
                        (rev (remdups (rev (referenced_names q')))))"
    have ef: "(qid, q) \<in> set (error_free (questions cd))"
      using h(1,2) by (simp add: error_free_def)
    have "?F (qid, q) \<in> set (map ?F (error_free (questions cd)))"
      using ef unfolding set_map by (rule imageI)
    then have mem: "(js_get qids qid,
          map (\<lambda>t. case map_of (rev newTags) t of Some i \<Rightarrow> Own i | None \<Rightarrow> Undefined)
            (foldl set_add [] ts)) \<in> set (map ?F (error_free (questions cd)))"
      using h(3) by (simp add: foldl_set_add_remdups)
    have run: "new_calls (syncNew cid cd qids ndb) =
        [Call_sync_course_tags_new (\<not> hasErrors (course cd))
           (if hasErrors (course cd) then []
            else case data (course cd) of
                   None \<Rightarrow> []
                 | Some d \<Rightarrow> map (\<lambda>t. (name t, description t, color t)) (course_tags d))
           (rev (remdups (rev (concat (map (\<lambda>(qid', q'). referenced_names q') (error_free (questions cd)))))))
           cid,
         Call_sync_question_tags_new (map ?F (error_free (questions cd)))]"
      and res: "new_result (syncNew cid cd qids ndb) =
           (case sync_question_tags_new ndb (map ?F (error_free (questions cd))) of
              Inl msg \<Rightarrow> Inl (SqlError msg) | Inr u \<Rightarrow> Inr ())"
      unfolding syncNew_run_explicit[OF h(4,5)] Let_def using h(6) by simp_all
    from mem run res show ?thesis by blast
  qed
  show ?thesis
    apply (intro conjI)
    subgoal using a by blast
    subgoal using b by blast
    subgoal by (rule c)
    subgoal by (rule repeats_subset_getDuplicates)
    subgoal using d by blast
    subgoal using e by blast
    subgoal using f by blast
    subgoal by (rule foldl_set_add_remdups)
    subgoal by (simp add: distinct_foldl_set_add)
    subgoal by (simp add: set_foldl_set_add)
    subgoal by (rule length_foldl_set_add)
    done
qed

text \<open>The question \<^verbatim>\<open>q1\<close> with tags \<^verbatim>\<open>["x", "x"]\<close> in both variants.\<close>

text \<open>The question \<^verbatim>\<open>q1\<close> with tags \<^verbatim>\<open>["x", "x"]\<close> in both variants.\<close>

theorem repeated_question_tag_witness:
  "\<not> distinct [''x'', ''x''] \<and>
   result (sync \<lparr>tags = Some [\<lparr>name = ''x'', color = ''blue1'', description = ''d''\<rparr>], courseId = (7::nat)\<rparr>
             [(''q1'', \<lparr>question_id = (1::nat), question_tags = Some [''x'', ''x'']\<rparr>)] numbering_db)
     = Inl (DuplicateTags ''q1'' [''x'']) \<and>
   syncNew (7::nat)
      \<lparr>course = \<lparr>hasErrors = False,
                  data = Some \<lparr>course_tags = [\<lparr>name = ''x'', color = ''blue1'', description = ''d''\<rparr>]\<rparr>\<rparr>,
       questions = [(''q1'', \<lparr>hasErrors = False, data = Some \<lparr>data_tags = Some [''x'', ''x'']\<rparr>\<rparr>)]\<rparr>
      [''q1'' \<mapsto> 1] numbering_new_db
     = \<lparr>new_calls = [Call_sync_course_tags_new True [(''x'', ''d'', ''blue1'')] [''x''] 7,
                      Call_sync_question_tags_new [(Own 1, [Own 0])]],
        new_result = Inr ()\<rparr>"
proof -
  let ?x = "\<lparr>name = ''x'', color = ''blue1'', description = ''d''\<rparr>"
  let ?ci = "\<lparr>tags = Some [?x], courseId = (7::nat)\<rparr>"
  let ?q = "\<lparr>question_id = (1::nat), question_tags = Some [''x'', ''x'']\<rparr>"
  let ?qdb = "[(''q1'', ?q)]"
  let ?cd = "\<lparr>course = \<lparr>hasErrors = False, data = Some \<lparr>course_tags = [?x]\<rparr>\<rparr>,
       questions = [(''q1'', \<lparr>hasErrors = False, data = Some \<lparr>data_tags = Some [''x'', ''x'']\<rparr>\<rparr>)]\<rparr>"
  let ?pts = "paramTags (resolved_tags (case tags ?ci of None \<Rightarrow> [] | Some xs \<Rightarrow> xs) ?qdb)"
  have nd: "\<not> distinct [''x'', ''x'']" by simp
  note th = repeated_question_tag[OF nd, of ?qdb ?ci numbering_db 7 ?cd "[''q1'' \<mapsto> 1]" numbering_new_db]
  have pts: "?pts = [(''x'', ''blue1'', ''d'')]"
    by (simp add: paramTags_def resolved_tags_def missingTagNames_def questionTagNames_def
        tags_or_empty_def)
  have 1: "?qdb = [] @ (''q1'', ?q) # []" by simp
  have 2: "tags_or_empty (question_tags ?q) = [''x'', ''x'']" by (simp add: tags_or_empty_def)
  have 3: "getDuplicatesByKey (case tags ?ci of None \<Rightarrow> [] | Some xs \<Rightarrow> xs) name = []"
    by (simp add: getDuplicatesByKey_def getDuplicates_def js_get_def js_put_def
        object_prototype_keys_def Let_def)
  have 4: "sync_course_tags numbering_db ?pts (courseId ?ci) = Inr [0]"
    unfolding pts by (simp add: numbering_db_def)
  have 5: "tagIdsByName ?pts [0 :: nat] = Inr [''x'' \<mapsto> 0]"
    unfolding pts by (simp add: tagIdsByName_def js_put_def)
  have 6: "paramQuestionTags [''x'' \<mapsto> (0::nat)] ([] :: nat questionDB) = Inr []" by simp
  have 7: "\<forall>t \<in> set [''x'', ''x'']. js_in t [''x'' \<mapsto> (0::nat)]" by (simp add: js_in_def)
  from th have "\<forall>qid q before rest ids m ps.
      ?qdb = before @ (qid, q) # rest \<and> tags_or_empty (question_tags q) = [''x'', ''x''] \<and>
      getDuplicatesByKey (case tags ?ci of None \<Rightarrow> [] | Some xs \<Rightarrow> xs) name = [] \<and>
      sync_course_tags numbering_db ?pts (courseId ?ci) = Inr ids \<and>
      tagIdsByName ?pts ids = Inr m \<and>
      paramQuestionTags m before = Inr ps \<and>
      (\<forall>t \<in> set [''x'', ''x'']. js_in t m) \<longrightarrow>
      result (sync ?ci ?qdb numbering_db) = Inl (DuplicateTags qid (getDuplicates [''x'', ''x'']))"
    by blast
  with 1 2 3 4 5 6 7
  have "result (sync ?ci ?qdb numbering_db) = Inl (DuplicateTags ''q1'' (getDuplicates [''x'', ''x'']))"
    by blast
  moreover have "getDuplicates [''x'', ''x''] = [''x'']"
    by (simp add: getDuplicates_def js_get_def js_put_def object_prototype_keys_def Let_def)
  moreover have "syncNew (7::nat) ?cd [''q1'' \<mapsto> 1] numbering_new_db
     = \<lparr>new_calls = [Call_sync_course_tags_new True [(''x'', ''d'', ''blue1'')] [''x''] 7,
                      Call_sync_question_tags_new [(Own 1, [Own 0])]],
        new_result = Inr ()\<rparr>"
    by (simp add: syncNew_def courseTags_def tags_or_empty_def set_add_def numbering_new_db_def
        propagate_def tagIdsByName_new_def question_entry_def js_get_def map_get_def Let_def)
  ultimately show ?thesis using nd by simp
qed

end
